theory Spec2Isabelle
  imports Complex_Main "HOL-Library.Log_Nat" "HOL-Library.Sublist" "HOL-Library.Multiset"
begin

section \<open>JavaScript numbers\<close>

text \<open>
  Every number of the program is a JavaScript Number, an IEEE 754 binary64 value. A
  finite value is kept as its sign bit (\<open>True\<close> for negative) and its magnitude, an exact
  rational, so that the two zeros are told apart; the results of the arithmetic
  operations are rounded to the nearest binary64 value, ties to the even significand,
  as the language prescribes.
\<close>

datatype jsnum = Fin bool rat | Infinity bool | NaN

text \<open>Rounding a rational to the nearest integer, ties to the even one.\<close>

definition rhe :: "rat \<Rightarrow> int" where
  "rhe x = (let f = \<lfloor>x\<rfloor>; d = x - of_int f in
     if d < 1 / 2 then f else if 1 / 2 < d then f + 1 else if even f then f else f + 1)"

text \<open>The binary exponent of a positive rational: the \<open>e\<close> with \<open>2 ^ e \<le> m < 2 ^ (e + 1)\<close>.\<close>

definition flog2 :: "rat \<Rightarrow> int" where
  "flog2 m = (if 1 \<le> m then bitlen \<lfloor>m\<rfloor> - 1 else - bitlen (\<lceil>1 / m\<rceil> - 1))"

text \<open>
  Powers of two with an integer exponent, and the spacing of the binary64 values around
  \<open>m\<close>: 53 significant bits, and the fixed spacing \<open>2 ^ - 1074\<close> of the subnormal range
  below \<open>2 ^ - 1022\<close>.
\<close>

definition pow2 :: "int \<Rightarrow> rat" where
  "pow2 e = (if 0 \<le> e then of_int (2 ^ nat e) else 1 / of_int (2 ^ nat (- e)))"

definition ulp :: "rat \<Rightarrow> rat" where
  "ulp m = pow2 (max (flog2 m) (- 1022) - 52)"

definition rnd :: "rat \<Rightarrow> rat" where
  "rnd m = (if m \<le> 0 then 0 else of_int (rhe (m / ulp m)) * ulp m)"

text \<open>A magnitude that rounds to \<open>2 ^ 1024\<close> or more overflows to infinity.\<close>

definition fround :: "bool \<Rightarrow> rat \<Rightarrow> jsnum" where
  "fround s m = (let r = rnd m in if pow2 1024 \<le> r then Infinity s else Fin s r)"

definition val :: "bool \<Rightarrow> rat \<Rightarrow> rat" where
  "val s m = (if s then - m else m)"

text \<open>A numeric literal of the source text denotes the binary64 value nearest to it.\<close>

definition Lit :: "rat \<Rightarrow> jsnum" where
  "Lit q = fround (q < 0) \<bar>q\<bar>"

instantiation jsnum :: "{plus, minus, uminus, times, inverse, ord}"
begin

fun uminus_jsnum :: "jsnum \<Rightarrow> jsnum" where
  "uminus_jsnum NaN = NaN"
| "uminus_jsnum (Infinity s) = Infinity (\<not> s)"
| "uminus_jsnum (Fin s a) = Fin (\<not> s) a"

text \<open>An exact sum of zero is \<open>-0\<close> only when both operands are negative.\<close>

fun plus_jsnum :: "jsnum \<Rightarrow> jsnum \<Rightarrow> jsnum" where
  "plus_jsnum NaN y = NaN"
| "plus_jsnum x NaN = NaN"
| "plus_jsnum (Infinity s) (Infinity t) = (if s = t then Infinity s else NaN)"
| "plus_jsnum (Infinity s) (Fin t b) = Infinity s"
| "plus_jsnum (Fin s a) (Infinity t) = Infinity t"
| "plus_jsnum (Fin s a) (Fin t b) =
     (let v = val s a + val t b in
      if v = 0 then Fin (s \<and> t) 0 else fround (v < 0) \<bar>v\<bar>)"

definition minus_jsnum :: "jsnum \<Rightarrow> jsnum \<Rightarrow> jsnum" where
  "minus_jsnum x y = x + (- y)"

fun times_jsnum :: "jsnum \<Rightarrow> jsnum \<Rightarrow> jsnum" where
  "times_jsnum NaN y = NaN"
| "times_jsnum x NaN = NaN"
| "times_jsnum (Infinity s) (Infinity t) = Infinity (s \<noteq> t)"
| "times_jsnum (Infinity s) (Fin t b) = (if b = 0 then NaN else Infinity (s \<noteq> t))"
| "times_jsnum (Fin s a) (Infinity t) = (if a = 0 then NaN else Infinity (s \<noteq> t))"
| "times_jsnum (Fin s a) (Fin t b) = fround (s \<noteq> t) (a * b)"

fun divide_jsnum :: "jsnum \<Rightarrow> jsnum \<Rightarrow> jsnum" where
  "divide_jsnum NaN y = NaN"
| "divide_jsnum x NaN = NaN"
| "divide_jsnum (Infinity s) (Infinity t) = NaN"
| "divide_jsnum (Infinity s) (Fin t b) = Infinity (s \<noteq> t)"
| "divide_jsnum (Fin s a) (Infinity t) = Fin (s \<noteq> t) 0"
| "divide_jsnum (Fin s a) (Fin t b) =
     (if b = 0 then (if a = 0 then NaN else Infinity (s \<noteq> t))
      else fround (s \<noteq> t) (a / b))"

text \<open>The program never takes a reciprocal; the operation is here for the notation \<open>x / y\<close>.\<close>

definition inverse_jsnum :: "jsnum \<Rightarrow> jsnum" where
  "inverse_jsnum x = divide (Fin False 1) x"

text \<open>A comparison with \<open>NaN\<close> on either side is false; the two zeros compare equal.\<close>

fun less_jsnum :: "jsnum \<Rightarrow> jsnum \<Rightarrow> bool" where
  "less_jsnum NaN y = False"
| "less_jsnum x NaN = False"
| "less_jsnum (Infinity s) (Infinity t) = (s \<and> \<not> t)"
| "less_jsnum (Infinity s) (Fin t b) = s"
| "less_jsnum (Fin s a) (Infinity t) = (\<not> t)"
| "less_jsnum (Fin s a) (Fin t b) = (val s a < val t b)"

fun less_eq_jsnum :: "jsnum \<Rightarrow> jsnum \<Rightarrow> bool" where
  "less_eq_jsnum NaN y = False"
| "less_eq_jsnum x NaN = False"
| "less_eq_jsnum (Infinity s) (Infinity t) = (s \<or> \<not> t)"
| "less_eq_jsnum (Infinity s) (Fin t b) = s"
| "less_eq_jsnum (Fin s a) (Infinity t) = (\<not> t)"
| "less_eq_jsnum (Fin s a) (Fin t b) = (val s a \<le> val t b)"

instance ..

end

text \<open>
  \<^verbatim>\<open>Math.round\<close>: the nearest integer, a tie going towards \<open>+\<infinity>\<close>; the sign of the
  argument is kept, so that a negative argument above \<open>-0.5\<close>, and \<open>-0\<close>, give \<open>-0\<close>.
\<close>

fun Math_round :: "jsnum \<Rightarrow> jsnum" where
  "Math_round NaN = NaN"
| "Math_round (Infinity s) = Infinity s"
| "Math_round (Fin s a) = Fin s (of_int \<bar>\<lfloor>val s a + 1 / 2\<rfloor>\<bar>)"

text \<open>\<^verbatim>\<open>Math.min\<close> of two arguments: \<open>NaN\<close> if either is, and \<open>-0\<close> counts as below \<open>+0\<close>.\<close>

fun is_negative :: "jsnum \<Rightarrow> bool" where
  "is_negative NaN = False"
| "is_negative (Infinity s) = s"
| "is_negative (Fin s a) = s"

definition Math_min :: "jsnum \<Rightarrow> jsnum \<Rightarrow> jsnum" where
  "Math_min x y =
     (if x = NaN \<or> y = NaN then NaN
      else if y < x then y else if x < y then x
      else if is_negative x then x else y)"

text \<open>\<^verbatim>\<open>ToBoolean\<close> of a number: false for \<open>+0\<close>, \<open>-0\<close> and \<open>NaN\<close> only.\<close>

fun truthy :: "jsnum \<Rightarrow> bool" where
  "truthy NaN = False"
| "truthy (Infinity s) = True"
| "truthy (Fin s a) = (a \<noteq> 0)"

text \<open>\<^verbatim>\<open>x || y\<close> on numbers.\<close>

definition js_or :: "jsnum \<Rightarrow> jsnum \<Rightarrow> jsnum" where
  "js_or x y = (if truthy x then x else y)"

section \<open>The profile and the energy model\<close>

datatype gender = Male | Female

datatype activityLevel = Sedentary | Light | Moderate | Active | VeryActive

datatype goal = Lose | Maintain | Gain

record User =
  name :: string
  age :: jsnum
  gender :: gender
  weight :: jsnum
  height :: jsnum
  activityLevel :: activityLevel
  goal :: goal

text \<open>The profile the program starts with when none is stored.\<close>

definition defaultUser :: User where
  "defaultUser = \<lparr>name = ''User'', age = Lit 30, gender = Female, weight = Lit 70,
     height = Lit 170, activityLevel = Moderate, goal = Maintain\<rparr>"

text \<open>\<^verbatim>\<open>calculateBMR\<close>; the closure's \<open>user\<close> is the argument here and below.\<close>

definition calculateBMR :: "User \<Rightarrow> jsnum" where
  "calculateBMR user =
     (if gender user = Female
      then Math_round (Lit 10 * weight user + Lit 6.25 * height user - Lit 5 * age user - Lit 161)
      else Math_round (Lit 10 * weight user + Lit 6.25 * height user - Lit 5 * age user + Lit 5))"

fun activityMultipliers :: "activityLevel \<Rightarrow> jsnum" where
  "activityMultipliers Sedentary = Lit 1.2"
| "activityMultipliers Light = Lit 1.375"
| "activityMultipliers Moderate = Lit 1.55"
| "activityMultipliers Active = Lit 1.725"
| "activityMultipliers VeryActive = Lit 1.9"

definition calculateTDEE :: "User \<Rightarrow> jsnum" where
  "calculateTDEE user =
     (let bmr = calculateBMR user
      in Math_round (bmr * activityMultipliers (activityLevel user)))"

fun goalAdjustments :: "jsnum \<Rightarrow> goal \<Rightarrow> jsnum" where
  "goalAdjustments tdee Lose = tdee - Lit 500"
| "goalAdjustments tdee Maintain = tdee"
| "goalAdjustments tdee Gain = tdee + Lit 500"

definition calculateCalorieGoal :: "User \<Rightarrow> jsnum" where
  "calculateCalorieGoal user =
     (let tdee = calculateTDEE user in goalAdjustments tdee (goal user))"

text \<open>
  The shape \<^verbatim>\<open>{calories, protein, carbs, fat}\<close> of the nutrition goals, of the daily
  summary, and of the nutrient part of a food entry.
\<close>

record Nutrients =
  calories :: jsnum
  protein :: jsnum
  carbs :: jsnum
  fat :: jsnum

text \<open>The effect that recomputes the nutrition goals from the profile.\<close>

definition calculateNutritionGoals :: "User \<Rightarrow> Nutrients" where
  "calculateNutritionGoals user =
     (let calorieGoal = calculateCalorieGoal user;
          proteinPerKg = (if goal user = Gain then Lit 2.2
                          else if goal user = Lose then Lit 2.0 else Lit 1.6);
          proteinGoal = Math_round (weight user * proteinPerKg);
          proteinCalories = proteinGoal * Lit 4;
          fatRatio = Lit 0.25;
          fatCalories = calorieGoal * fatRatio;
          fatGoal = Math_round (fatCalories / Lit 9);
          remainingCalories = calorieGoal - proteinCalories - fatCalories;
          carbGoal = Math_round (remainingCalories / Lit 4)
      in \<lparr>calories = calorieGoal, protein = proteinGoal, carbs = carbGoal, fat = fatGoal\<rparr>)"

section \<open>The food log and the component state\<close>

text \<open>
  A food entry: the nutrient fields, then \<^verbatim>\<open>id\<close>, \<^verbatim>\<open>name\<close> and \<^verbatim>\<open>date\<close> (the first two
  are prefixed here, the plain names being taken).
\<close>

record Food = Nutrients +
  food_id :: string
  food_name :: string
  date :: string

text \<open>
  The form state \<^verbatim>\<open>newFood\<close> is a \<^verbatim>\<open>Partial<Food>\<close>: each field may be absent
  (\<^verbatim>\<open>undefined\<close>). Only the five fields the form sets and the handler reads are kept.
\<close>

record PartialFood =
  pf_name :: "string option"
  pf_calories :: "jsnum option"
  pf_protein :: "jsnum option"
  pf_carbs :: "jsnum option"
  pf_fat :: "jsnum option"

datatype tab = Home | Add | Metrics | Settings

record AppState =
  user :: User
  currentDate :: string
  allFoods :: "Food list"
  newFood :: PartialFood
  activeTab :: tab





definition handleRemoveFood :: "string \<Rightarrow> AppState \<Rightarrow> AppState" where
  "handleRemoveFood i st = st\<lparr>allFoods := filter (\<lambda>food. food_id food \<noteq> i) (allFoods st)\<rparr>"

section \<open>The daily summary\<close>

text \<open>The entries of the selected date: \<^verbatim>\<open>allFoods.filter(food => food.date === currentDate)\<close>.\<close>

definition foods :: "Food list \<Rightarrow> string \<Rightarrow> Food list" where
  "foods all cur = filter (\<lambda>food. date food = cur) all"

definition zeroSummary :: Nutrients where
  "zeroSummary = \<lparr>calories = Lit 0, protein = Lit 0, carbs = Lit 0, fat = Lit 0\<rparr>"

text \<open>
  The callback of \<^verbatim>\<open>reduce\<close> (its accumulator \<^verbatim>\<open>total\<close> is \<open>tot\<close> here), and the
  reduction from the left over the entries.
\<close>

definition addFood :: "Nutrients \<Rightarrow> Food \<Rightarrow> Nutrients" where
  "addFood tot food =
     \<lparr>calories = calories tot + calories food,
      protein = protein tot + protein food,
      carbs = carbs tot + carbs food,
      fat = fat tot + fat food\<rparr>"

definition summarize :: "Food list \<Rightarrow> string \<Rightarrow> Nutrients" where
  "summarize all cur = foldl addFood zeroSummary (foods all cur)"

section \<open>Progress figures and advice\<close>

definition remainingCalories :: "Nutrients \<Rightarrow> Nutrients \<Rightarrow> jsnum" where
  "remainingCalories dailySummary nutritionGoals = calories nutritionGoals - calories dailySummary"

definition caloriePercentage :: "Nutrients \<Rightarrow> Nutrients \<Rightarrow> jsnum" where
  "caloriePercentage dailySummary nutritionGoals =
     Math_min (Lit 100) ((calories dailySummary / calories nutritionGoals) * Lit 100)"

definition proteinPercentage :: "Nutrients \<Rightarrow> Nutrients \<Rightarrow> jsnum" where
  "proteinPercentage dailySummary nutritionGoals =
     Math_min (Lit 100) ((protein dailySummary / protein nutritionGoals) * Lit 100)"

definition carbsPercentage :: "Nutrients \<Rightarrow> Nutrients \<Rightarrow> jsnum" where
  "carbsPercentage dailySummary nutritionGoals =
     Math_min (Lit 100) ((carbs dailySummary / carbs nutritionGoals) * Lit 100)"

definition fatPercentage :: "Nutrients \<Rightarrow> Nutrients \<Rightarrow> jsnum" where
  "fatPercentage dailySummary nutritionGoals =
     Math_min (Lit 100) ((fat dailySummary / fat nutritionGoals) * Lit 100)"

text \<open>
  The three shares of the calorie goal shown on the metrics tab, each
  \<^verbatim>\<open>Math.round((grams * k / (nutritionGoals.calories || 1)) * 100)\<close>.
\<close>

definition proteinShare :: "Nutrients \<Rightarrow> Nutrients \<Rightarrow> jsnum" where
  "proteinShare dailySummary nutritionGoals =
     Math_round ((protein dailySummary * Lit 4 / js_or (calories nutritionGoals) (Lit 1)) * Lit 100)"

definition carbsShare :: "Nutrients \<Rightarrow> Nutrients \<Rightarrow> jsnum" where
  "carbsShare dailySummary nutritionGoals =
     Math_round ((carbs dailySummary * Lit 4 / js_or (calories nutritionGoals) (Lit 1)) * Lit 100)"

definition fatShare :: "Nutrients \<Rightarrow> Nutrients \<Rightarrow> jsnum" where
  "fatShare dailySummary nutritionGoals =
     Math_round ((fat dailySummary * Lit 9 / js_or (calories nutritionGoals) (Lit 1)) * Lit 100)"

definition msgOver :: string where
  "msgOver = ''You're over your calorie goal. Consider lighter meals for the rest of the day.''"

definition msgUnder :: string where
  "msgUnder = ''You're significantly under your calorie goal. Make sure you're eating enough.''"

definition msgProtein :: string where
  "msgProtein = ''Try to include more protein-rich foods in your next meals.''"

definition msgFat :: string where
  "msgFat = ''You've reached your fat intake for today. Focus on lean proteins and complex carbs.''"

definition msgOnTrack :: string where
  "msgOnTrack = ''You're on track with your nutrition goals today!''"

text \<open>\<^verbatim>\<open>generateAdvice\<close>: the list \<open>advice\<close> after each of the three statements.\<close>

definition generateAdvice :: "Nutrients \<Rightarrow> Nutrients \<Rightarrow> string list" where
  "generateAdvice dailySummary nutritionGoals =
     (let advice0 = [];
          advice1 =
            (if remainingCalories dailySummary nutritionGoals < - Lit 200
             then advice0 @ [msgOver]
             else if calories nutritionGoals * Lit 0.5 < remainingCalories dailySummary nutritionGoals
             then advice0 @ [msgUnder]
             else advice0);
          advice2 =
            (if protein dailySummary < protein nutritionGoals * Lit 0.6
                \<and> calories nutritionGoals * Lit 0.5 < calories dailySummary
             then advice1 @ [msgProtein]
             else advice1);
          advice3 =
            (if fat nutritionGoals < fat dailySummary
             then advice2 @ [msgFat]
             else advice2)
      in if 0 < length advice3 then advice3 else [msgOnTrack])"

section \<open>Dates\<close>

text \<open>
  \<^verbatim>\<open>changeDate\<close> goes through the language's \<^verbatim>\<open>Date\<close>: the constructor reads the ISO date
  as midnight UTC, \<^verbatim>\<open>getDate\<close> and \<^verbatim>\<open>setDate\<close> work on the local time of the host, and
  \<^verbatim>\<open>toISOString\<close> prints in UTC again. The definitions follow the abstract operations of
  the language standard. A time value is a number of milliseconds since the epoch; the
  time value of a \<^verbatim>\<open>Date\<close> is \<open>None\<close> when it is \<^verbatim>\<open>NaN\<close> (an invalid date).
\<close>

definition msPerDay :: int where
  "msPerDay = 86400000"

definition Day :: "int \<Rightarrow> int" where
  "Day t = t div msPerDay"

definition TimeWithinDay :: "int \<Rightarrow> int" where
  "TimeWithinDay t = t mod msPerDay"

definition DaysInYear :: "int \<Rightarrow> int" where
  "DaysInYear y =
     (if y mod 4 \<noteq> 0 then 365 else if y mod 100 \<noteq> 0 then 366
      else if y mod 400 \<noteq> 0 then 365 else 366)"

definition DayFromYear :: "int \<Rightarrow> int" where
  "DayFromYear y =
     365 * (y - 1970) + (y - 1969) div 4 - (y - 1901) div 100 + (y - 1601) div 400"

definition TimeFromYear :: "int \<Rightarrow> int" where
  "TimeFromYear y = msPerDay * DayFromYear y"

text \<open>
  The year of a time value is the largest \<open>y\<close> with \<open>TimeFromYear y \<le> t\<close>. It is computed
  from an estimate with the mean length of a year, 146097 days in 400 years, which is off
  by one year at most.
\<close>

definition YearFromTime :: "int \<Rightarrow> int" where
  "YearFromTime t =
     (let d = Day t; y = 1970 + (400 * d) div 146097
      in if DayFromYear (y + 1) \<le> d then y + 1 else if DayFromYear y \<le> d then y else y - 1)"

definition InLeapYear :: "int \<Rightarrow> int" where
  "InLeapYear t = (if DaysInYear (YearFromTime t) = 366 then 1 else 0)"

definition DayWithinYear :: "int \<Rightarrow> int" where
  "DayWithinYear t = Day t - DayFromYear (YearFromTime t)"

definition MonthFromTime :: "int \<Rightarrow> int" where
  "MonthFromTime t =
     (let d = DayWithinYear t; l = InLeapYear t in
      if d < 31 then 0 else if d < 59 + l then 1 else if d < 90 + l then 2
      else if d < 120 + l then 3 else if d < 151 + l then 4 else if d < 181 + l then 5
      else if d < 212 + l then 6 else if d < 243 + l then 7 else if d < 273 + l then 8
      else if d < 304 + l then 9 else if d < 334 + l then 10 else 11)"

text \<open>The day of the year on which month \<open>m\<close> (from 0) begins.\<close>

definition monthStart :: "int \<Rightarrow> int \<Rightarrow> int" where
  "monthStart m l =
     (if m = 0 then 0 else if m = 1 then 31 else if m = 2 then 59 + l
      else if m = 3 then 90 + l else if m = 4 then 120 + l else if m = 5 then 151 + l
      else if m = 6 then 181 + l else if m = 7 then 212 + l else if m = 8 then 243 + l
      else if m = 9 then 273 + l else if m = 10 then 304 + l else 334 + l)"

definition DateFromTime :: "int \<Rightarrow> int" where
  "DateFromTime t = DayWithinYear t - monthStart (MonthFromTime t) (InLeapYear t) + 1"

definition HourFromTime :: "int \<Rightarrow> int" where
  "HourFromTime t = (t div 3600000) mod 24"

definition MinFromTime :: "int \<Rightarrow> int" where
  "MinFromTime t = (t div 60000) mod 60"

definition SecFromTime :: "int \<Rightarrow> int" where
  "SecFromTime t = (t div 1000) mod 60"

definition msFromTime :: "int \<Rightarrow> int" where
  "msFromTime t = t mod 1000"

text \<open>
  \<^verbatim>\<open>MakeDay\<close>: the day number of the first of the month, found by the standard as the day
  of a time value with that year, that month and the date 1, plus \<open>dt - 1\<close>.
\<close>

definition MakeDay :: "int \<Rightarrow> int \<Rightarrow> int \<Rightarrow> int" where
  "MakeDay year month dt =
     (let ym = year + month div 12; mn = month mod 12
      in DayFromYear ym + monthStart mn (if DaysInYear ym = 366 then 1 else 0) + dt - 1)"

definition MakeDate :: "int \<Rightarrow> int \<Rightarrow> int" where
  "MakeDate day time = day * msPerDay + time"

definition TimeClip :: "int \<Rightarrow> int option" where
  "TimeClip t = (if 8640000000000000 < \<bar>t\<bar> then None else Some t)"

text \<open>
  The time zone of the host: the offset from UTC in force at first, in milliseconds, and
  the later transitions, each the instant (UTC) from which a new offset is in force. The
  offset for a local time that a transition skips or repeats is the one before the
  transition.
\<close>

datatype timezone = Zone int "(int \<times> int) list"

fun offsetAtUTC :: "int \<Rightarrow> (int \<times> int) list \<Rightarrow> int \<Rightarrow> int" where
  "offsetAtUTC off [] t = off"
| "offsetAtUTC off ((inst, off') # rest) t = (if inst \<le> t then offsetAtUTC off' rest t else off)"

fun offsetAtLocal :: "int \<Rightarrow> (int \<times> int) list \<Rightarrow> int \<Rightarrow> int" where
  "offsetAtLocal off [] t = off"
| "offsetAtLocal off ((inst, off') # rest) t =
     (if inst \<le> t - max off off' then offsetAtLocal off' rest t else off)"

fun LocalTZA :: "timezone \<Rightarrow> int \<Rightarrow> bool \<Rightarrow> int" where
  "LocalTZA (Zone off trs) t isUTC = (if isUTC then offsetAtUTC off trs t else offsetAtLocal off trs t)"

definition LocalTime :: "timezone \<Rightarrow> int \<Rightarrow> int" where
  "LocalTime tz t = t + LocalTZA tz t True"

definition UTC :: "timezone \<Rightarrow> int \<Rightarrow> int" where
  "UTC tz t = t - LocalTZA tz t False"

text \<open>Decimal digits.\<close>

definition digit :: "int \<Rightarrow> char" where
  "digit n = char_of (48 + n)"

definition isDigit :: "char \<Rightarrow> bool" where
  "isDigit c = (48 \<le> (of_char c :: int) \<and> (of_char c :: int) \<le> 57)"

definition digitVal :: "char \<Rightarrow> int" where
  "digitVal c = of_char c - 48"

fun pad :: "nat \<Rightarrow> int \<Rightarrow> string" where
  "pad 0 n = []"
| "pad (Suc k) n = pad k (n div 10) @ [digit (n mod 10)]"

definition number :: "string \<Rightarrow> int" where
  "number cs = foldl (\<lambda>n c. 10 * n + digitVal c) 0 cs"

text \<open>
  The date part of the ISO format: a year of four digits, or of six digits with a sign
  when it is outside 0 to 9999, then the month and the day of two digits each.
\<close>

definition isoYear :: "int \<Rightarrow> string" where
  "isoYear y =
     (if 0 \<le> y \<and> y \<le> 9999 then pad 4 y
      else if y < 0 then CHR ''-'' # pad 6 (- y) else CHR ''+'' # pad 6 y)"

datatype error = RangeError

definition toISOString :: "int option \<Rightarrow> error + string" where
  "toISOString tv =
     (case tv of
        None \<Rightarrow> Inl RangeError
      | Some t \<Rightarrow> Inr (isoYear (YearFromTime t) @ ''-'' @ pad 2 (MonthFromTime t + 1) @ ''-''
          @ pad 2 (DateFromTime t) @ ''T'' @ pad 2 (HourFromTime t) @ '':''
          @ pad 2 (MinFromTime t) @ '':'' @ pad 2 (SecFromTime t) @ ''.''
          @ pad 3 (msFromTime t) @ ''Z''))"

text \<open>\<^verbatim>\<open>s.split('T')[0]\<close>: the part of \<open>s\<close> before its first \<open>T\<close>.\<close>

definition split_T_0 :: "string \<Rightarrow> string" where
  "split_T_0 s = takeWhile (\<lambda>c. c \<noteq> CHR ''T'') s"

text \<open>
  \<^verbatim>\<open>new Date(s)\<close> for a string in the date-only ISO form, which is read as midnight UTC;
  a month outside 1 to 12 or a day outside 1 to 31 gives an invalid date. A day up to 31
  that its month does not have is carried into the next month, as V8 does, where other
  engines give an invalid date; and for strings of any other form the engines fall back
  on rules of their own, which are not modelled: such strings are invalid dates here. The
  program only holds strings that \<^verbatim>\<open>toISOString\<close> has printed.
\<close>

definition dateOfFields :: "int \<Rightarrow> string \<Rightarrow> string \<Rightarrow> int option" where
  "dateOfFields y ms ds =
     (let m = number ms; d = number ds in
      if list_all isDigit ms \<and> list_all isDigit ds \<and> 1 \<le> m \<and> m \<le> 12 \<and> 1 \<le> d \<and> d \<le> 31
      then TimeClip (MakeDate (MakeDay y (m - 1) d) 0) else None)"

fun Date_parse :: "string \<Rightarrow> int option" where
  "Date_parse [y1, y2, y3, y4, h1, m1, m2, h2, d1, d2] =
     (if list_all isDigit [y1, y2, y3, y4] \<and> h1 = CHR ''-'' \<and> h2 = CHR ''-''
      then dateOfFields (number [y1, y2, y3, y4]) [m1, m2] [d1, d2] else None)"
| "Date_parse [sg, y1, y2, y3, y4, y5, y6, h1, m1, m2, h2, d1, d2] =
     (let y = number [y1, y2, y3, y4, y5, y6] in
      if list_all isDigit [y1, y2, y3, y4, y5, y6] \<and> h1 = CHR ''-'' \<and> h2 = CHR ''-''
         \<and> (sg = CHR ''+'' \<or> sg = CHR ''-'' \<and> y \<noteq> 0)
      then dateOfFields (if sg = CHR ''-'' then - y else y) [m1, m2] [d1, d2] else None)"
| "Date_parse s = None"

text \<open>\<^verbatim>\<open>getDate\<close> and \<^verbatim>\<open>setDate\<close>; the result \<^verbatim>\<open>NaN\<close> of the first is \<open>None\<close>.\<close>

definition getDate :: "timezone \<Rightarrow> int option \<Rightarrow> int option" where
  "getDate tz tv = (case tv of None \<Rightarrow> None | Some t \<Rightarrow> Some (DateFromTime (LocalTime tz t)))"

definition setDate :: "timezone \<Rightarrow> int option \<Rightarrow> int option \<Rightarrow> int option" where
  "setDate tz tv dt =
     (case tv of
        None \<Rightarrow> None
      | Some t0 \<Rightarrow>
          (case dt of
             None \<Rightarrow> None
           | Some d \<Rightarrow>
               (let t = LocalTime tz t0;
                    newDate = MakeDate (MakeDay (YearFromTime t) (MonthFromTime t) d) (TimeWithinDay t)
                in TimeClip (UTC tz newDate))))"

text \<open>
  \<^verbatim>\<open>changeDate\<close>: the new value of \<open>currentDate\<close>, or the exception that \<^verbatim>\<open>toISOString\<close>
  throws on an invalid date, in which case the state is not updated.
\<close>

definition changeDate :: "timezone \<Rightarrow> int \<Rightarrow> string \<Rightarrow> error + string" where
  "changeDate tz offset cur =
     (let date0 = Date_parse cur;
          date1 = setDate tz date0 (map_option (\<lambda>d. d + offset) (getDate tz date0))
      in case toISOString date1 of
           Inl e \<Rightarrow> Inl e
         | Inr s \<Rightarrow> Inr (split_T_0 s))"

text \<open>Two hosts: one on UTC, one on the time of New York in 2024.\<close>

definition tzUTC :: timezone where
  "tzUTC = Zone 0 []"

definition tzNewYork :: timezone where
  "tzNewYork = Zone (- 18000000) [(1710054000000, - 14400000), (1730613600000, - 18000000)]"

section \<open>The formulas of the specification\<close>

text \<open>
  The Mifflin-St Jeor equation as the specification words it, in the arithmetic of the
  language.
\<close>

definition mifflinStJeor :: "gender \<Rightarrow> jsnum \<Rightarrow> jsnum \<Rightarrow> jsnum \<Rightarrow> jsnum" where
  "mifflinStJeor g w h a =
     (case g of
        Female \<Rightarrow> Math_round (Lit 10 * w + Lit 6.25 * h - Lit 5 * a - Lit 161)
      | Male \<Rightarrow> Math_round (Lit 10 * w + Lit 6.25 * h - Lit 5 * a + Lit 5))"

text \<open>The sum of a list of numbers: the additions of the language, from 0, in the order of the list.\<close>

definition js_sum :: "jsnum list \<Rightarrow> jsnum" where
  "js_sum xs = foldl (+) (Lit 0) xs"

text \<open>
  The non-negative whole numbers among the values, the magnitude of a finite value, and
  the lists of whole numbers whose total is at most \<open>2 ^ 53\<close>, the range in which every
  whole number is a binary64 value.
\<close>

fun isCount :: "jsnum \<Rightarrow> bool" where
  "isCount (Fin s a) = (\<not> s \<and> 0 \<le> a \<and> of_int \<lfloor>a\<rfloor> = a)"
| "isCount (Infinity s) = False"
| "isCount NaN = False"

fun magnitude :: "jsnum \<Rightarrow> rat" where
  "magnitude (Fin s a) = a"
| "magnitude (Infinity s) = 0"
| "magnitude NaN = 0"

definition countsUpTo :: "jsnum list \<Rightarrow> bool" where
  "countsUpTo xs = (list_all isCount xs \<and> sum_list (map magnitude xs) \<le> 2 ^ 53)"

text \<open>The four threshold rules of the advisory engine, as the specification lists them.\<close>

definition ruleOver :: "Nutrients \<Rightarrow> Nutrients \<Rightarrow> bool" where
  "ruleOver summary goals = (calories goals - calories summary < - Lit 200)"

definition ruleUnder :: "Nutrients \<Rightarrow> Nutrients \<Rightarrow> bool" where
  "ruleUnder summary goals = (Lit 0.5 * calories goals < calories goals - calories summary)"

definition ruleProtein :: "Nutrients \<Rightarrow> Nutrients \<Rightarrow> bool" where
  "ruleProtein summary goals =
     (protein summary < Lit 0.6 * protein goals \<and> Lit 0.5 * calories goals < calories summary)"

definition ruleFat :: "Nutrients \<Rightarrow> Nutrients \<Rightarrow> bool" where
  "ruleFat summary goals = (fat goals < fat summary)"


text \<open>
  The finite number of value \<open>i / 4\<close>, for a whole number \<open>i\<close> (the sign of a zero is left
  open), and the value of a finite number.
\<close>

definition quarters :: "jsnum \<Rightarrow> int \<Rightarrow> bool" where
  "quarters x i = (\<exists>s. x = Fin s (\<bar>of_int i\<bar> / 4) \<and> (i \<noteq> 0 \<longrightarrow> s = (i < 0)))"

fun valueOf :: "jsnum \<Rightarrow> rat" where
  "valueOf (Fin s a) = val s a"
| "valueOf (Infinity s) = 0"
| "valueOf NaN = 0"

fun isFinite :: "jsnum \<Rightarrow> bool" where
  "isFinite (Fin s a) = True"
| "isFinite (Infinity s) = False"
| "isFinite NaN = False"

text \<open>Rounding to the nearest whole number, a tie going up, on exact numbers.\<close>

definition nearest :: "rat \<Rightarrow> int" where
  "nearest x = \<lfloor>x + 1 / 2\<rfloor>"

text \<open>The date part of the ISO form of a time value.\<close>

definition isoDate :: "int \<Rightarrow> string" where
  "isoDate t = isoYear (YearFromTime t) @ ''-'' @ pad 2 (MonthFromTime t + 1) @ ''-''
     @ pad 2 (DateFromTime t)"

section \<open>Sample data\<close>

definition chicken :: Food where
  "chicken = \<lparr>calories = Lit 165, protein = Lit 31, carbs = Lit 0, fat = Lit 4,
     food_id = ''1710064800000'', food_name = ''Chicken'', date = ''2024-03-10''\<rparr>"

definition apple :: Food where
  "apple = \<lparr>calories = Lit 95, protein = Lit 1, carbs = Lit 25, fat = Lit 0,
     food_id = ''1710068400000'', food_name = ''Apple'', date = ''2024-03-10''\<rparr>"

definition toast :: Food where
  "toast = \<lparr>calories = Lit 80, protein = Lit 3, carbs = Lit 15, fat = Lit 1,
     food_id = ''1710144000000'', food_name = ''Toast'', date = ''2024-03-11''\<rparr>"

text \<open>An entry of 10 March 2024 with the given calories and nothing else.\<close>

definition snack :: "string \<Rightarrow> jsnum \<Rightarrow> Food" where
  "snack i c = \<lparr>calories = c, protein = Lit 0, carbs = Lit 0, fat = Lit 0,
     food_id = i, food_name = ''Snack'', date = ''2024-03-10''\<rparr>"


definition zeroGoals :: Nutrients where
  "zeroGoals = \<lparr>calories = Lit 0, protein = Lit 112, carbs = Lit 310, fat = Lit 63\<rparr>"

section \<open>Properties of the arithmetic\<close>

lemma times_jsnum_commute: "x * y = y * (x :: jsnum)"
proof (cases x; cases y)
  fix s a t b
  assume "x = Fin s a" and "y = Fin t b"
  moreover have "(s \<noteq> t) = (t \<noteq> s)"
    by blast
  ultimately show ?thesis
    by (simp only: times_jsnum.simps mult.commute [of a b])
qed auto

lemma rhe_of_int: "rhe (of_int k) = k"
  by (simp add: rhe_def)

lemma pow2_pos: "0 < pow2 e"
  by (simp add: pow2_def)

lemma ulp_pos: "0 < ulp m"
  by (simp add: ulp_def pow2_pos)

text \<open>A value on the grid of its own binade is not changed by rounding.\<close>

lemma rnd_exact:
  assumes "0 < m" and "m / ulp m = of_int k"
  shows "rnd m = m"
proof -
  have "of_int (rhe (m / ulp m)) * ulp m = (m / ulp m) * ulp m"
    by (simp only: assms(2) rhe_of_int)
  also have "\<dots> = m"
    using ulp_pos [of m] by simp
  finally show ?thesis
    using assms(1) by (simp add: rnd_def)
qed

lemma flog2_of_nat:
  assumes "0 < n"
  shows "flog2 (of_nat n) = bitlen (int n) - 1"
proof -
  have "(1::rat) \<le> of_nat n"
    using assms by simp
  moreover have "\<lfloor>(of_nat n :: rat)\<rfloor> = int n"
    by simp
  ultimately show ?thesis
    by (simp add: flog2_def)
qed

lemma bitlen_nat_bound:
  assumes "0 < n" and "n \<le> 2 ^ 53"
  shows "1 \<le> bitlen (int n)" and "bitlen (int n) \<le> 54"
    and "bitlen (int n) = 54 \<Longrightarrow> n = 2 ^ 53"
proof -
  have pos: "0 < int n"
    using assms(1) by simp
  from bitlen_bounds [OF pos]
  have lo: "2 ^ nat (bitlen (int n) - 1) \<le> int n"
    by simp
  show "1 \<le> bitlen (int n)"
    using pos bitlen_eq_zero_iff [of "int n"] bitlen_nonneg [of "int n"] by linarith
  have "int n \<le> 2 ^ 53"
    using assms(2) by simp
  with lo have "(2::int) ^ nat (bitlen (int n) - 1) \<le> 2 ^ 53"
    by (rule order_trans)
  then have "nat (bitlen (int n) - 1) \<le> 53"
    using power_increasing_iff [of "2::int" "nat (bitlen (int n) - 1)" 53] by simp
  then show "bitlen (int n) \<le> 54"
    by linarith
  show "n = 2 ^ 53" if "bitlen (int n) = 54"
  proof -
    have "(2::int) ^ 53 \<le> int n"
      using lo that by simp
    then have "2 ^ 53 \<le> n"
      by (metis of_nat_le_iff of_nat_numeral of_nat_power)
    with assms(2) show ?thesis
      by simp
  qed
qed

text \<open>The natural numbers up to \<open>2 ^ 53\<close> are binary64 values.\<close>

lemma rnd_of_nat:
  assumes "n \<le> 2 ^ 53"
  shows "rnd (of_nat n) = of_nat n"
proof (cases "n = 0")
  case True
  then show ?thesis
    by (simp add: rnd_def)
next
  case False
  then have pos: "0 < n"
    by simp
  define e where "e = bitlen (int n) - 1"
  have e: "0 \<le> e" "e \<le> 53" and top: "e = 53 \<Longrightarrow> n = 2 ^ 53"
    using bitlen_nat_bound [OF pos assms] by (simp_all add: e_def)
  have ulp: "ulp (of_nat n) = pow2 (e - 52)"
    using e by (simp add: ulp_def flog2_of_nat [OF pos] e_def max_def)
  have "\<exists>k. (of_nat n :: rat) / ulp (of_nat n) = of_int k"
  proof (cases "e = 53")
    case True
    have "(of_nat n :: rat) / ulp (of_nat n) = of_nat n / 2"
      using True by (simp add: ulp pow2_def)
    also have "\<dots> = of_int (2 ^ 52)"
      by (simp add: top [OF True])
    finally show ?thesis ..
  next
    case False
    with e have "e \<le> 52"
      by simp
    then have "(of_nat n :: rat) / ulp (of_nat n) = of_int (int n * 2 ^ nat (52 - e))"
      by (cases "e = 52") (simp_all add: ulp pow2_def)
    then show ?thesis ..
  qed
  then obtain k where "(of_nat n :: rat) / ulp (of_nat n) = of_int k" ..
  with pos show ?thesis
    by (intro rnd_exact [of _ k]) simp_all
qed

lemma fround_of_nat:
  assumes "n \<le> 2 ^ 53"
  shows "fround s (of_nat n) = Fin s (of_nat n)"
proof -
  have "(of_nat n :: rat) \<le> 2 ^ 53"
    using assms by (metis of_nat_le_iff of_nat_numeral of_nat_power)
  also have "\<dots> < pow2 1024"
    by (simp add: pow2_def)
  finally show ?thesis
    by (simp add: fround_def rnd_of_nat [OF assms])
qed

lemma pow2_nonneg_exp: "0 \<le> e \<Longrightarrow> pow2 e = 2 ^ nat e"
  by (simp add: pow2_def)

lemma pow2_neg_exp: "e < 0 \<Longrightarrow> pow2 e = 1 / 2 ^ nat (- e)"
  by (simp add: pow2_def)

lemma pow2_Suc: "pow2 (e + 1) = 2 * pow2 e"
proof (cases "0 \<le> e")
  case True
  then show ?thesis
    by (simp add: pow2_nonneg_exp nat_add_distrib)
next
  case False
  then have "nat (- e) = Suc (nat (- (e + 1)))"
    by simp
  then have "pow2 e = 1 / (2 * 2 ^ nat (- (e + 1)))"
    using False by (simp add: pow2_neg_exp)
  moreover have "pow2 (e + 1) = 1 / 2 ^ nat (- (e + 1))"
    using False by (cases "e + 1 < 0") (simp_all add: pow2_neg_exp pow2_nonneg_exp)
  ultimately show ?thesis
    by simp
qed

text \<open>\<open>flog2\<close> is the binary exponent.\<close>

lemma flog2_bounds:
  assumes "0 < m"
  shows "pow2 (flog2 m) \<le> m" and "m < pow2 (flog2 m + 1)"
proof -
  have "pow2 (flog2 m) \<le> m \<and> m < pow2 (flog2 m + 1)"
  proof (cases "1 \<le> m")
    case True
    define n where "n = \<lfloor>m\<rfloor>"
    have n: "1 \<le> n" "of_int n \<le> m" "m < of_int (n + 1)"
      using True by (simp_all add: n_def le_floor_iff) linarith
    then have pos: "0 < n"
      by simp
    from bitlen_bounds [OF pos]
    have lo: "2 ^ nat (bitlen n - 1) \<le> n" and hi: "n + 1 \<le> 2 ^ nat (bitlen n)"
      by simp_all
    have b: "1 \<le> bitlen n"
      using pos bitlen_eq_zero_iff [of n] bitlen_nonneg [of n] by linarith
    have e: "flog2 m = bitlen n - 1"
      using True by (simp add: flog2_def n_def)
    have "pow2 (bitlen n - 1) = of_int (2 ^ nat (bitlen n - 1))"
      using b by (simp add: pow2_def)
    also have "\<dots> \<le> of_int n"
      using lo by (simp only: of_int_le_iff)
    finally have "pow2 (flog2 m) \<le> m"
      using n(2) by (simp add: e)
    have "m < of_int (n + 1)"
      by (rule n(3))
    also have "\<dots> \<le> of_int (2 ^ nat (bitlen n))"
      using hi by (simp only: of_int_le_iff)
    also have "\<dots> = pow2 (bitlen n)"
      using b by (simp add: pow2_def)
    finally have "m < pow2 (flog2 m + 1)"
      by (simp add: e)
    with \<open>pow2 (flog2 m) \<le> m\<close> show ?thesis ..
  next
    case False
    define n where "n = \<lceil>1 / m\<rceil>"
    define k where "k = bitlen (n - 1)"
    have x: "1 < 1 / m"
      using assms False by simp
    have n: "of_int (n - 1) < 1 / m" "1 / m \<le> of_int n"
      unfolding n_def by linarith+
    have "1 < (of_int n :: rat)"
      using x n(2) by linarith
    then have pos: "0 < n - 1"
      by simp
    from bitlen_bounds [OF pos]
    have lo: "2 ^ nat (k - 1) \<le> n - 1" and hi: "n \<le> 2 ^ nat k"
      by (simp_all add: k_def)
    have k: "1 \<le> k"
      using pos bitlen_eq_zero_iff [of "n - 1"] bitlen_nonneg [of "n - 1"]
      unfolding k_def by linarith
    have e: "flog2 m = - k"
      using False by (simp add: flog2_def n_def k_def)
    have "1 / m \<le> of_int (2 ^ nat k)"
      using n(2) hi by (meson of_int_le_iff order_trans)
    then have "1 / m \<le> 2 ^ nat k"
      by simp
    then have "1 \<le> m * 2 ^ nat k"
      using assms by (simp add: field_simps)
    then have "1 / 2 ^ nat k \<le> m"
      by (simp add: field_simps)
    then have first: "pow2 (flog2 m) \<le> m"
      using k by (simp add: e pow2_neg_exp)
    have "(of_int (2 ^ nat (k - 1)) :: rat) \<le> of_int (n - 1)"
      using lo by (simp only: of_int_le_iff)
    with n(1) have "2 ^ nat (k - 1) < 1 / m"
      by simp
    then have "m * 2 ^ nat (k - 1) < 1"
      using assms by (simp add: field_simps)
    then have "m < 1 / 2 ^ nat (k - 1)"
      by (simp add: field_simps)
    moreover have "pow2 (- k + 1) = 1 / 2 ^ nat (k - 1)"
      using k by (cases "k = 1") (simp_all add: pow2_neg_exp pow2_nonneg_exp)
    ultimately have "m < pow2 (flog2 m + 1)"
      by (simp add: e)
    with first show ?thesis ..
  qed
  then show "pow2 (flog2 m) \<le> m" and "m < pow2 (flog2 m + 1)"
    by simp_all
qed

lemma rhe_error: "\<bar>of_int (rhe x) - x\<bar> \<le> 1 / 2"
proof -
  have "of_int \<lfloor>x\<rfloor> \<le> x" and "x < of_int \<lfloor>x\<rfloor> + 1"
    by linarith+
  then show ?thesis
    by (auto simp: rhe_def Let_def abs_le_iff)
qed

text \<open>
  \<open>rnd\<close> rounds to the nearest point of the grid: the result is a whole multiple of the
  spacing, at most half a spacing away.
\<close>

lemma rnd_nearest:
  assumes "0 < m"
  shows "rnd m = of_int (rhe (m / ulp m)) * ulp m" and "\<bar>rnd m - m\<bar> \<le> ulp m / 2"
proof -
  show eq: "rnd m = of_int (rhe (m / ulp m)) * ulp m"
    using assms by (simp add: rnd_def)
  have "rnd m - m = (of_int (rhe (m / ulp m)) - m / ulp m) * ulp m"
    using ulp_pos [of m] by (simp add: eq algebra_simps)
  then have "\<bar>rnd m - m\<bar> = \<bar>of_int (rhe (m / ulp m)) - m / ulp m\<bar> * ulp m"
    using ulp_pos [of m] by (simp add: abs_mult)
  also have "\<dots> \<le> 1 / 2 * ulp m"
    using rhe_error [of "m / ulp m"] ulp_pos [of m] by (intro mult_right_mono) simp_all
  finally show "\<bar>rnd m - m\<bar> \<le> ulp m / 2"
    by simp
qed

lemma pow2_power_int: "pow2 e = power_int 2 e"
  by (simp add: pow2_def power_int_def power_one_over [symmetric] inverse_eq_divide)

lemma pow2_less_imp: "pow2 a < pow2 b \<Longrightarrow> a < b"
proof (rule ccontr)
  assume "pow2 a < pow2 b" and "\<not> a < b"
  then have "pow2 b \<le> pow2 a"
    by (simp add: pow2_power_int power_int_increasing)
  with \<open>pow2 a < pow2 b\<close> show False
    by simp
qed

lemma pow2_add: "pow2 (a + b) = pow2 a * pow2 b"
  by (simp add: pow2_power_int power_int_add)

text \<open>A multiple of a quarter below \<open>2 ^ 51\<close> is a binary64 value.\<close>

lemma rnd_quarters:
  assumes "k < 2 ^ 53"
  shows "rnd (of_nat k / 4) = of_nat k / 4"
proof (cases "k = 0")
  case True
  then show ?thesis
    by (simp add: rnd_def)
next
  case False
  define m :: rat where "m = of_nat k / 4"
  define e where "e = flog2 m"
  have pos: "0 < m"
    using False by (simp add: m_def)
  have b: "pow2 e \<le> m" "m < pow2 (e + 1)"
    using flog2_bounds [OF pos] by (simp_all add: e_def)
  have "(of_nat k :: rat) < 2 ^ 53"
    using assms by (metis of_nat_less_iff of_nat_numeral of_nat_power)
  then have "m < pow2 51"
    by (simp add: m_def pow2_def)
  with b(1) have "pow2 e < pow2 51"
    by simp
  then have hi: "e \<le> 50"
    using pow2_less_imp [of e 51] by simp
  have "(1 :: rat) \<le> of_nat k"
    using False by simp
  then have "pow2 (- 2) \<le> m"
    by (simp add: m_def pow2_def)
  with b(2) have "pow2 (- 2) < pow2 (e + 1)"
    by simp
  then have lo: "- 2 \<le> e"
    using pow2_less_imp [of "- 2" "e + 1"] by simp
  have ulp: "ulp m = pow2 (e - 52)"
    using lo by (simp add: ulp_def e_def [symmetric] max_def)
  have "pow2 (50 - e) = pow2 (- 2) * (1 / pow2 (e - 52))"
  proof -
    have "pow2 (50 - e) * pow2 (e - 52) = pow2 (- 2)"
      by (simp add: pow2_add [symmetric])
    then show ?thesis
      using pow2_pos [of "e - 52"] by (simp add: field_simps)
  qed
  moreover have "pow2 (- 2) = 1 / 4"
    by (simp add: pow2_def)
  ultimately have "m / ulp m = of_nat k * pow2 (50 - e)"
    unfolding ulp by (simp add: m_def)
  also have "\<dots> = of_int (int k * 2 ^ nat (50 - e))"
    using hi by (simp add: pow2_def)
  finally have "rnd m = m"
    using pos by (intro rnd_exact)
  then show ?thesis
    by (simp add: m_def)
qed

lemma fround_quarters_nat:
  assumes "k < 2 ^ 53"
  shows "fround s (of_nat k / 4) = Fin s (of_nat k / 4)"
proof -
  have "(of_nat k :: rat) < 2 ^ 53"
    using assms by (metis of_nat_less_iff of_nat_numeral of_nat_power)
  then have "(of_nat k :: rat) / 4 < pow2 1024"
    by (simp add: pow2_def)
  then show ?thesis
    by (simp add: fround_def rnd_quarters [OF assms])
qed

lemma fround_quarters:
  assumes "\<bar>i\<bar> < 2 ^ 53"
  shows "fround s (\<bar>of_int i\<bar> / 4) = Fin s (\<bar>of_int i\<bar> / 4)"
proof -
  define k where "k = nat \<bar>i\<bar>"
  have i: "\<bar>of_int i :: rat\<bar> = of_nat k"
    by (simp add: k_def)
  have "int k < 2 ^ 53"
    using assms by (simp add: k_def)
  then have "k < 2 ^ 53"
    by (metis of_nat_less_iff of_nat_numeral of_nat_power)
  then show ?thesis
    unfolding i by (rule fround_quarters_nat)
qed

lemma quarters_value: "quarters x i \<Longrightarrow> isFinite x \<and> valueOf x = of_int i / 4"
  by (auto simp: quarters_def val_def)

lemma quarters_whole: "quarters (Fin False (of_nat n)) (4 * int n)"
  unfolding quarters_def by (rule exI [of _ False]) simp

lemma quarters_uminus: "quarters x i \<Longrightarrow> quarters (- x) (- i)"
  by (auto simp: quarters_def)

lemma quarters_plus:
  assumes "quarters x i" and "quarters y j" and "\<bar>i\<bar> + \<bar>j\<bar> < 2 ^ 53"
  shows "quarters (x + y) (i + j)"
proof -
  obtain s t where x: "x = Fin s (\<bar>of_int i\<bar> / 4)" "i \<noteq> 0 \<longrightarrow> s = (i < 0)"
    and y: "y = Fin t (\<bar>of_int j\<bar> / 4)" "j \<noteq> 0 \<longrightarrow> t = (j < 0)"
    using assms(1,2) by (auto simp: quarters_def)
  have vx: "val s (\<bar>of_int i\<bar> / 4) = of_int i / 4"
    using x(2) by (cases "i = 0") (auto simp: val_def)
  have vy: "val t (\<bar>of_int j\<bar> / 4) = of_int j / 4"
    using y(2) by (cases "j = 0") (auto simp: val_def)
  have v: "val s (\<bar>of_int i\<bar> / 4) + val t (\<bar>of_int j\<bar> / 4) = (of_int (i + j) :: rat) / 4"
    by (simp only: vx vy) (simp add: add_divide_distrib)
  have sum: "x + y = (let v = (of_int (i + j) :: rat) / 4
                      in if v = 0 then Fin (s \<and> t) 0 else fround (v < 0) \<bar>v\<bar>)"
    unfolding x(1) y(1) by (simp only: plus_jsnum.simps v)
  show ?thesis
  proof (cases "i + j = 0")
    case True
    then show ?thesis
      by (simp add: sum quarters_def)
  next
    case False
    have "\<bar>i + j\<bar> < 2 ^ 53"
      using assms(3) by linarith
    then have "fround (i + j < 0) (\<bar>of_int (i + j)\<bar> / 4) = Fin (i + j < 0) (\<bar>of_int (i + j)\<bar> / 4)"
      by (rule fround_quarters)
    moreover have "\<bar>(of_int (i + j) :: rat) / 4\<bar> = \<bar>of_int (i + j)\<bar> / 4"
      by (simp del: of_int_add)
    moreover have "((of_int (i + j) :: rat) / 4 < 0) = (i + j < 0)"
      by (simp del: of_int_add)
    moreover have "(of_int (i + j) :: rat) / 4 \<noteq> 0"
      using False by (simp del: of_int_add)
    ultimately have "x + y = Fin (i + j < 0) (\<bar>of_int (i + j)\<bar> / 4)"
      by (simp only: sum Let_def if_False)
    then show ?thesis
      by (simp add: quarters_def)
  qed
qed

lemma quarters_minus:
  assumes "quarters x i" and "quarters y j" and "\<bar>i\<bar> + \<bar>j\<bar> < 2 ^ 53"
  shows "quarters (x - y) (i - j)"
  using quarters_plus [OF assms(1) quarters_uminus [OF assms(2)]] assms(3)
  by (simp add: minus_jsnum_def)

lemma quarters_times_whole:
  assumes "quarters x i" and "int n * \<bar>i\<bar> < 2 ^ 53"
  shows "quarters (x * Fin False (of_nat n)) (i * int n)"
proof -
  obtain s where x: "x = Fin s (\<bar>of_int i\<bar> / 4)" "i \<noteq> 0 \<longrightarrow> s = (i < 0)"
    using assms(1) by (auto simp: quarters_def)
  have "\<bar>i * int n\<bar> < 2 ^ 53"
    using assms(2) by (simp add: abs_mult mult.commute)
  then have "fround s (\<bar>of_int (i * int n)\<bar> / 4) = Fin s (\<bar>of_int (i * int n)\<bar> / 4)"
    by (rule fround_quarters)
  moreover have "\<bar>of_int i\<bar> / 4 * of_nat n = (\<bar>of_int (i * int n)\<bar> :: rat) / 4"
    by (simp add: abs_mult)
  ultimately have "x * Fin False (of_nat n) = Fin s (\<bar>of_int (i * int n)\<bar> / 4)"
    by (simp add: x(1))
  moreover have "i * int n \<noteq> 0 \<longrightarrow> s = (i * int n < 0)"
    using x(2) by (auto simp: mult_less_0_iff)
  ultimately show ?thesis
    by (auto simp: quarters_def)
qed

lemma Math_round_quarters:
  assumes "quarters x i"
  shows "isFinite (Math_round x)" and "valueOf (Math_round x) = of_int \<lfloor>of_int i / 4 + 1 / 2 :: rat\<rfloor>"
proof -
  obtain s where x: "x = Fin s (\<bar>of_int i\<bar> / 4)" "i \<noteq> 0 \<longrightarrow> s = (i < 0)"
    using assms by (auto simp: quarters_def)
  show "isFinite (Math_round x)"
    by (simp add: x(1))
  have v: "val s (\<bar>of_int i\<bar> / 4) = of_int i / 4"
    using x(2) by (cases "i = 0") (auto simp: val_def)
  define r where "r = \<lfloor>of_int i / 4 + 1 / 2 :: rat\<rfloor>"
  have "r \<le> 0" if "s"
  proof -
    from that x(2) have "i \<le> 0"
      by (cases "i = 0") simp_all
    then have "(of_int i :: rat) / 4 + 1 / 2 < 1"
      by simp
    then show ?thesis
      unfolding r_def by (simp add: floor_less_iff)
  qed
  moreover have "0 \<le> r" if "\<not> s"
  proof -
    from that x(2) have "0 \<le> i"
      by (cases "i = 0") simp_all
    then have "0 \<le> (of_int i :: rat) / 4 + 1 / 2"
      by simp
    then show ?thesis
      unfolding r_def by simp
  qed
  ultimately have "val s (of_int \<bar>r\<bar>) = of_int r"
    by (cases s) (simp_all add: val_def)
  moreover have "Math_round x = Fin s (of_int \<bar>r\<bar>)"
    by (simp only: x(1) Math_round.simps v r_def)
  ultimately show "valueOf (Math_round x) = of_int \<lfloor>of_int i / 4 + 1 / 2 :: rat\<rfloor>"
    by (simp add: r_def)
qed

section \<open>The energy model\<close>

lemma Lit_quarters:
  "quarters (Lit 10) 40" "quarters (Lit 6.25) 25" "quarters (Lit 5) 20" "quarters (Lit 161) 644"
proof -
  have "Lit 10 = Fin False (\<bar>of_int 40\<bar> / 4)" "Lit 6.25 = Fin False (\<bar>of_int 25\<bar> / 4)"
    "Lit 5 = Fin False (\<bar>of_int 20\<bar> / 4)" "Lit 161 = Fin False (\<bar>of_int 644\<bar> / 4)"
    by code_simp+
  then show "quarters (Lit 10) 40" "quarters (Lit 6.25) 25" "quarters (Lit 5) 20"
    "quarters (Lit 161) 644"
    unfolding quarters_def by (intro exI [of _ False]; simp)+
qed

text \<open>
  For a profile of whole numbers the arithmetic of \<^verbatim>\<open>calculateBMR\<close> is exact up to the
  final rounding: before it, the value is \<open>(40 w + 25 h - 20 a + c) / 4\<close>.
\<close>

lemma bmr_quarters:
  assumes "w \<le> 10 ^ 9" and "h \<le> 10 ^ 9" and "a \<le> 10 ^ 9"
  shows "quarters (Lit 10 * Fin False (of_nat w) + Lit 6.25 * Fin False (of_nat h)
      - Lit 5 * Fin False (of_nat a) - Lit 161) (40 * int w + 25 * int h - 20 * int a - 644)"
    and "quarters (Lit 10 * Fin False (of_nat w) + Lit 6.25 * Fin False (of_nat h)
      - Lit 5 * Fin False (of_nat a) + Lit 5) (40 * int w + 25 * int h - 20 * int a + 20)"
proof -
  have w: "int w \<le> 1000000000" and h: "int h \<le> 1000000000" and a: "int a \<le> 1000000000"
    using assms by simp_all
  have t1: "quarters (Lit 10 * Fin False (of_nat w)) (40 * int w)"
    using quarters_times_whole [OF Lit_quarters(1), of w] w by simp
  have t2: "quarters (Lit 6.25 * Fin False (of_nat h)) (25 * int h)"
    using quarters_times_whole [OF Lit_quarters(2), of h] h by simp
  have t3: "quarters (Lit 5 * Fin False (of_nat a)) (20 * int a)"
    using quarters_times_whole [OF Lit_quarters(3), of a] a by simp
  have s1: "quarters (Lit 10 * Fin False (of_nat w) + Lit 6.25 * Fin False (of_nat h))
      (40 * int w + 25 * int h)"
    using w h by (intro quarters_plus t1 t2) simp
  have s2: "quarters (Lit 10 * Fin False (of_nat w) + Lit 6.25 * Fin False (of_nat h)
      - Lit 5 * Fin False (of_nat a)) (40 * int w + 25 * int h - 20 * int a)"
    using w h a by (intro quarters_minus s1 t3) simp
  show "quarters (Lit 10 * Fin False (of_nat w) + Lit 6.25 * Fin False (of_nat h)
      - Lit 5 * Fin False (of_nat a) - Lit 161) (40 * int w + 25 * int h - 20 * int a - 644)"
    using w h a by (intro quarters_minus s2 Lit_quarters(4)) simp
  show "quarters (Lit 10 * Fin False (of_nat w) + Lit 6.25 * Fin False (of_nat h)
      - Lit 5 * Fin False (of_nat a) + Lit 5) (40 * int w + 25 * int h - 20 * int a + 20)"
    using w h a by (intro quarters_plus s2 Lit_quarters(3)) simp
qed

lemma calculateBMR_exact:
  assumes "weight u = Fin False (of_nat w)" and "height u = Fin False (of_nat h)"
    and "age u = Fin False (of_nat a)" and "w \<le> 10 ^ 9" and "h \<le> 10 ^ 9" and "a \<le> 10 ^ 9"
  shows "isFinite (calculateBMR u)"
    and "valueOf (calculateBMR u) =
      of_int (nearest (10 * of_nat w + 6.25 * of_nat h - 5 * of_nat a
                + (case gender u of Female \<Rightarrow> - 161 | Male \<Rightarrow> 5)))"
proof -
  note q = bmr_quarters [OF assms(4-6)]
  have f: "(of_int (40 * int w + 25 * int h - 20 * int a - 644) :: rat) / 4
      = 10 * of_nat w + 6.25 * of_nat h - 5 * of_nat a + - 161"
    and m: "(of_int (40 * int w + 25 * int h - 20 * int a + 20) :: rat) / 4
      = 10 * of_nat w + 6.25 * of_nat h - 5 * of_nat a + 5"
    by (simp_all add: field_simps)
  show "isFinite (calculateBMR u)"
    unfolding calculateBMR_def assms(1-3)
    using Math_round_quarters(1) [OF q(1)] Math_round_quarters(1) [OF q(2)] by simp
  show "valueOf (calculateBMR u) =
      of_int (nearest (10 * of_nat w + 6.25 * of_nat h - 5 * of_nat a
                + (case gender u of Female \<Rightarrow> - 161 | Male \<Rightarrow> 5)))"
  proof (cases "gender u")
    case Female
    then have "calculateBMR u = Math_round (Lit 10 * Fin False (of_nat w)
        + Lit 6.25 * Fin False (of_nat h) - Lit 5 * Fin False (of_nat a) - Lit 161)"
      unfolding calculateBMR_def assms(1-3) by (simp only: HOL.simp_thms if_True)
    then show ?thesis
      using Female by (simp only: Math_round_quarters(2) [OF q(1)] f nearest_def gender.case)
  next
    case Male
    then have "calculateBMR u = Math_round (Lit 10 * Fin False (of_nat w)
        + Lit 6.25 * Fin False (of_nat h) - Lit 5 * Fin False (of_nat a) + Lit 5)"
      unfolding calculateBMR_def assms(1-3) by (simp only: gender.distinct HOL.simp_thms if_False)
    then show ?thesis
      using Male by (simp only: Math_round_quarters(2) [OF q(2)] m nearest_def gender.case)
  qed
qed

text \<open>
  C7: for every profile, \<^verbatim>\<open>calculateBMR\<close> is the Mifflin-St Jeor equation:
  \<open>round(10 weight + 6.25 height - 5 age - 161)\<close> for a female profile and
  \<open>round(10 weight + 6.25 height - 5 age + 5)\<close> otherwise. This holds term for term in the
  arithmetic of the language; and for a profile of whole numbers up to \<open>10 ^ 9\<close> no
  operation before the final rounding rounds, so that the result is the exact value of
  the equation, rounded to the nearest whole number.
\<close>

theorem calculateBMR_mifflin:
  "calculateBMR u = mifflinStJeor (gender u) (weight u) (height u) (age u)
   \<and> (weight u = Fin False (of_nat w) \<and> height u = Fin False (of_nat h)
        \<and> age u = Fin False (of_nat a) \<and> w \<le> 10 ^ 9 \<and> h \<le> 10 ^ 9 \<and> a \<le> 10 ^ 9
      \<longrightarrow> isFinite (calculateBMR u)
        \<and> valueOf (calculateBMR u) =
            of_int (nearest (10 * of_nat w + 6.25 * of_nat h - 5 * of_nat a
                      + (case gender u of Female \<Rightarrow> - 161 | Male \<Rightarrow> 5))))"
proof (intro conjI impI)
  show "calculateBMR u = mifflinStJeor (gender u) (weight u) (height u) (age u)"
    by (cases "gender u") (simp_all add: calculateBMR_def mifflinStJeor_def)
  assume "weight u = Fin False (of_nat w) \<and> height u = Fin False (of_nat h)
      \<and> age u = Fin False (of_nat a) \<and> w \<le> 10 ^ 9 \<and> h \<le> 10 ^ 9 \<and> a \<le> 10 ^ 9"
  then have whole: "weight u = Fin False (of_nat w)" "height u = Fin False (of_nat h)"
    "age u = Fin False (of_nat a)" "w \<le> 10 ^ 9" "h \<le> 10 ^ 9" "a \<le> 10 ^ 9"
    by blast+
  show "isFinite (calculateBMR u)"
    by (rule calculateBMR_exact(1) [OF whole])
  show "valueOf (calculateBMR u) =
      of_int (nearest (10 * of_nat w + 6.25 * of_nat h - 5 * of_nat a
                + (case gender u of Female \<Rightarrow> - 161 | Male \<Rightarrow> 5)))"
    by (rule calculateBMR_exact(2) [OF whole])
qed

lemma defaultUser_whole:
  "weight defaultUser = Fin False (of_nat 70)" "height defaultUser = Fin False (of_nat 170)"
  "age defaultUser = Fin False (of_nat 30)"
proof -
  have "Lit 70 = Fin False 70" "Lit 170 = Fin False 170" "Lit 30 = Fin False 30"
    by code_simp+
  then show "weight defaultUser = Fin False (of_nat 70)"
    "height defaultUser = Fin False (of_nat 170)" "age defaultUser = Fin False (of_nat 30)"
    by (simp_all add: defaultUser_def)
qed

theorem calculateBMR_mifflin_witness:
  "calculateBMR defaultUser = mifflinStJeor Female (Lit 70) (Lit 170) (Lit 30)
   \<and> weight defaultUser = Fin False (of_nat 70) \<and> height defaultUser = Fin False (of_nat 170)
   \<and> age defaultUser = Fin False (of_nat 30)
   \<and> (70 :: nat) \<le> 10 ^ 9 \<and> (170 :: nat) \<le> 10 ^ 9 \<and> (30 :: nat) \<le> 10 ^ 9
   \<and> isFinite (calculateBMR defaultUser) \<and> valueOf (calculateBMR defaultUser) = 1452"
proof -
  have bounds: "(70 :: nat) \<le> 10 ^ 9" "(170 :: nat) \<le> 10 ^ 9" "(30 :: nat) \<le> 10 ^ 9"
    by simp_all
  have fields: "gender defaultUser = Female" "weight defaultUser = Lit 70"
    "height defaultUser = Lit 170" "age defaultUser = Lit 30"
    by (simp_all add: defaultUser_def)
  have n: "nearest (10 * of_nat 70 + 6.25 * of_nat 170 - 5 * of_nat 30
      + (case gender defaultUser of Female \<Rightarrow> - 161 | Male \<Rightarrow> 5)) = 1452"
    by (simp add: nearest_def fields(1))
  from calculateBMR_mifflin [of defaultUser 70 170 30]
  have "calculateBMR defaultUser
      = mifflinStJeor (gender defaultUser) (weight defaultUser) (height defaultUser) (age defaultUser)"
    by (rule conjunct1)
  then have formula: "calculateBMR defaultUser = mifflinStJeor Female (Lit 70) (Lit 170) (Lit 30)"
    by (simp only: fields)
  from calculateBMR_mifflin [of defaultUser 70 170 30] defaultUser_whole bounds
  have "isFinite (calculateBMR defaultUser)
      \<and> valueOf (calculateBMR defaultUser) =
          of_int (nearest (10 * of_nat 70 + 6.25 * of_nat 170 - 5 * of_nat 30
                    + (case gender defaultUser of Female \<Rightarrow> - 161 | Male \<Rightarrow> 5)))"
    by blast
  then have "isFinite (calculateBMR defaultUser)" and "valueOf (calculateBMR defaultUser) = 1452"
    unfolding n by simp_all
  with formula defaultUser_whole bounds show ?thesis
    by blast
qed

lemma bmr_example_value:
  "Math_round (Lit 10 * Lit 70 + Lit 6.25 * Lit 170 - Lit 5 * Lit 30 - Lit 161) = Fin False 1452"
  by code_simp

text \<open>
  C2, as the code has it: for the profile with gender female, weight 70, height 170 and
  age 30, \<^verbatim>\<open>calculateBMR\<close> returns 1452, which is \<open>round(700 + 1062.5 - 150 - 161)\<close>, the
  rounding of 1451.5.
\<close>

theorem calculateBMR_example:
  assumes "gender u = Female" and "weight u = Lit 70" and "height u = Lit 170"
    and "age u = Lit 30"
  shows "calculateBMR u = Fin False 1452"
  unfolding calculateBMR_def assms by (simp only: bmr_example_value HOL.simp_thms if_True)

theorem calculateBMR_example_witness:
  "gender defaultUser = Female \<and> weight defaultUser = Lit 70 \<and> height defaultUser = Lit 170
   \<and> age defaultUser = Lit 30 \<and> calculateBMR defaultUser = Fin False 1452"
  using calculateBMR_example [of defaultUser] by (simp add: defaultUser_def)

text \<open>The value 1498 that the specification gives for that profile is not the result.\<close>

theorem calculateBMR_not_1498:
  "calculateBMR \<lparr>name = ''User'', age = Lit 30, gender = Female, weight = Lit 70,
     height = Lit 170, activityLevel = Moderate, goal = Maintain\<rparr> \<noteq> Fin False 1498"
  by code_simp

text \<open>
  C8: \<^verbatim>\<open>calculateTDEE\<close> is \<open>round(BMR * multiplier)\<close> with the multipliers 1.2, 1.375, 1.55,
  1.725 and 1.9 of the five activity levels, and \<^verbatim>\<open>calculateCalorieGoal\<close> is the TDEE
  less 500 for the goal lose, the TDEE for maintain, and the TDEE plus 500 for gain.
\<close>

theorem calculateTDEE_calorieGoal:
  "calculateTDEE u =
     Math_round (calculateBMR u *
       (case activityLevel u of Sedentary \<Rightarrow> Lit 1.2 | Light \<Rightarrow> Lit 1.375
        | Moderate \<Rightarrow> Lit 1.55 | Active \<Rightarrow> Lit 1.725 | VeryActive \<Rightarrow> Lit 1.9))
   \<and> calculateCalorieGoal u =
     (case goal u of Lose \<Rightarrow> calculateTDEE u - Lit 500 | Maintain \<Rightarrow> calculateTDEE u
      | Gain \<Rightarrow> calculateTDEE u + Lit 500)"
  by (cases "activityLevel u"; cases "goal u")
     (simp_all add: calculateTDEE_def calculateCalorieGoal_def)

lemma default_tdee: "Math_round (calculateBMR defaultUser * Lit 1.55) = Fin False 2251"
  by code_simp

theorem calculateTDEE_calorieGoal_witness:
  "calculateTDEE defaultUser = Math_round (calculateBMR defaultUser * Lit 1.55)
   \<and> calculateTDEE defaultUser = Fin False 2251
   \<and> calculateCalorieGoal defaultUser = calculateTDEE defaultUser"
proof -
  have fields: "activityLevel defaultUser = Moderate" "goal defaultUser = Maintain"
    by (simp_all add: defaultUser_def)
  from calculateTDEE_calorieGoal [of defaultUser]
  have "calculateTDEE defaultUser = Math_round (calculateBMR defaultUser * Lit 1.55)"
    and "calculateCalorieGoal defaultUser = calculateTDEE defaultUser"
    by (simp_all only: fields activityLevel.case goal.case)
  then show ?thesis
    by (simp only: default_tdee)
qed

text \<open>
  C4: the nutrition goals are the calorie goal, the protein target
  \<open>round(weight * p)\<close> with \<open>p\<close> = 2.2 for gain, 2.0 for lose and 1.6 for maintain, the fat
  target \<open>round(0.25 * calorieGoal / 9)\<close>, and the carbohydrate target
  \<open>round((calorieGoal - proteinGoal * 4 - 0.25 * calorieGoal) / 4)\<close>, in which the fat
  calories \<open>0.25 * calorieGoal\<close> are not rounded.
\<close>

theorem calculateNutritionGoals_formulas:
  "calories (calculateNutritionGoals u) = calculateCalorieGoal u
   \<and> protein (calculateNutritionGoals u) =
       Math_round (weight u *
         (case goal u of Gain \<Rightarrow> Lit 2.2 | Lose \<Rightarrow> Lit 2.0 | Maintain \<Rightarrow> Lit 1.6))
   \<and> fat (calculateNutritionGoals u) = Math_round (Lit 0.25 * calculateCalorieGoal u / Lit 9)
   \<and> carbs (calculateNutritionGoals u) =
       Math_round ((calculateCalorieGoal u - protein (calculateNutritionGoals u) * Lit 4
                    - Lit 0.25 * calculateCalorieGoal u) / Lit 4)"
  by (cases "goal u")
     (simp_all add: calculateNutritionGoals_def Let_def times_jsnum_commute [of "Lit (1 / 4)"])

lemma default_goals:
  "calculateNutritionGoals defaultUser
     = \<lparr>calories = Fin False 2251, protein = Fin False 112, carbs = Fin False 310, fat = Fin False 63\<rparr>"
  "Math_round ((calculateCalorieGoal defaultUser
                - protein (calculateNutritionGoals defaultUser) * Lit 4
                - fat (calculateNutritionGoals defaultUser) * Lit 9) / Lit 4) = Fin False 309"
  by code_simp+

text \<open>
  For the default profile the carbohydrate target is 310 g; with the rounded fat target
  times 9 in place of the unrounded fat calories it would be 309 g.
\<close>

theorem calculateNutritionGoals_formulas_witness:
  "protein (calculateNutritionGoals defaultUser) = Math_round (Lit 70 * Lit 1.6)
   \<and> fat (calculateNutritionGoals defaultUser)
       = Math_round (Lit 0.25 * calculateCalorieGoal defaultUser / Lit 9)
   \<and> carbs (calculateNutritionGoals defaultUser) =
       Math_round ((calculateCalorieGoal defaultUser
                    - protein (calculateNutritionGoals defaultUser) * Lit 4
                    - Lit 0.25 * calculateCalorieGoal defaultUser) / Lit 4)
   \<and> carbs (calculateNutritionGoals defaultUser) = Fin False 310
   \<and> Math_round ((calculateCalorieGoal defaultUser
                    - protein (calculateNutritionGoals defaultUser) * Lit 4
                    - fat (calculateNutritionGoals defaultUser) * Lit 9) / Lit 4) = Fin False 309"
proof -
  have fields: "weight defaultUser = Lit 70" "goal defaultUser = Maintain"
    by (simp_all add: defaultUser_def)
  from calculateNutritionGoals_formulas [of defaultUser]
  have "protein (calculateNutritionGoals defaultUser) = Math_round (Lit 70 * Lit 1.6)"
    and "fat (calculateNutritionGoals defaultUser)
       = Math_round (Lit 0.25 * calculateCalorieGoal defaultUser / Lit 9)"
    and "carbs (calculateNutritionGoals defaultUser) =
       Math_round ((calculateCalorieGoal defaultUser
                    - protein (calculateNutritionGoals defaultUser) * Lit 4
                    - Lit 0.25 * calculateCalorieGoal defaultUser) / Lit 4)"
    by (simp_all only: fields goal.case)
  moreover have "carbs (calculateNutritionGoals defaultUser) = Fin False 310"
    by (simp add: default_goals(1))
  ultimately show ?thesis
    using default_goals(2) by blast
qed

section \<open>The daily summary\<close>

lemma Lit_values:
  "Lit 0 = Fin False 0" "Lit 1 = Fin False 1" "Lit 4 = Fin False 4" "Lit 9 = Fin False 9"
  "Lit 100 = Fin False 100"
  by code_simp+

lemma foldl_addFood:
  "foldl addFood acc xs =
     \<lparr>calories = foldl (+) (calories acc) (map calories xs),
      protein = foldl (+) (protein acc) (map protein xs),
      carbs = foldl (+) (carbs acc) (map carbs xs),
      fat = foldl (+) (fat acc) (map fat xs)\<rparr>"
proof (induction xs arbitrary: acc)
  case Nil
  show ?case
    by (cases acc) simp
next
  case (Cons x xs)
  show ?case
    by (simp only: foldl_Cons Cons.IH list.map) (simp add: addFood_def)
qed

lemma summarize_js_sum:
  "summarize es d =
     \<lparr>calories = js_sum (map calories (filter (\<lambda>e. date e = d) es)),
      protein = js_sum (map protein (filter (\<lambda>e. date e = d) es)),
      carbs = js_sum (map carbs (filter (\<lambda>e. date e = d) es)),
      fat = js_sum (map fat (filter (\<lambda>e. date e = d) es))\<rparr>"
  by (simp add: summarize_def foods_def foldl_addFood js_sum_def zeroSummary_def)

text \<open>
  C9: \<^verbatim>\<open>summarize\<close> keeps exactly the entries whose date equals the selected date and
  returns, field by field, the sums of their calories, protein, carbs and fat; when no
  entry matches, and for the empty collection, every sum is 0.
\<close>

theorem summarize_sums:
  "summarize es d =
     \<lparr>calories = js_sum (map calories (filter (\<lambda>e. date e = d) es)),
      protein = js_sum (map protein (filter (\<lambda>e. date e = d) es)),
      carbs = js_sum (map carbs (filter (\<lambda>e. date e = d) es)),
      fat = js_sum (map fat (filter (\<lambda>e. date e = d) es))\<rparr>
   \<and> ((\<forall>e \<in> set es. date e \<noteq> d) \<longrightarrow>
        summarize es d
          = \<lparr>calories = Fin False 0, protein = Fin False 0, carbs = Fin False 0, fat = Fin False 0\<rparr>)
   \<and> summarize [] d
        = \<lparr>calories = Fin False 0, protein = Fin False 0, carbs = Fin False 0, fat = Fin False 0\<rparr>"
proof (intro conjI impI)
  show "summarize es d =
     \<lparr>calories = js_sum (map calories (filter (\<lambda>e. date e = d) es)),
      protein = js_sum (map protein (filter (\<lambda>e. date e = d) es)),
      carbs = js_sum (map carbs (filter (\<lambda>e. date e = d) es)),
      fat = js_sum (map fat (filter (\<lambda>e. date e = d) es))\<rparr>"
    by (rule summarize_js_sum)
  show "summarize es d
          = \<lparr>calories = Fin False 0, protein = Fin False 0, carbs = Fin False 0, fat = Fin False 0\<rparr>"
    if "\<forall>e \<in> set es. date e \<noteq> d"
  proof -
    have "filter (\<lambda>e. date e = d) es = []"
      using that by (simp add: filter_empty_conv)
    then show ?thesis
      by (simp add: summarize_js_sum js_sum_def Lit_values)
  qed
  show "summarize [] d
        = \<lparr>calories = Fin False 0, protein = Fin False 0, carbs = Fin False 0, fat = Fin False 0\<rparr>"
    by (simp add: summarize_js_sum js_sum_def Lit_values)
qed

theorem summarize_sums_witness:
  "summarize [chicken, toast, apple] ''2024-03-10'' =
     \<lparr>calories = js_sum [Lit 165, Lit 95], protein = js_sum [Lit 31, Lit 1],
      carbs = js_sum [Lit 0, Lit 25], fat = js_sum [Lit 4, Lit 0]\<rparr>
   \<and> date chicken \<noteq> ''2024-03-12'' \<and> date toast \<noteq> ''2024-03-12''
   \<and> date apple \<noteq> ''2024-03-12''
   \<and> summarize [chicken, toast, apple] ''2024-03-12''
        = \<lparr>calories = Fin False 0, protein = Fin False 0, carbs = Fin False 0, fat = Fin False 0\<rparr>"
proof -
  have dates: "date chicken \<noteq> ''2024-03-12''" "date toast \<noteq> ''2024-03-12''"
    "date apple \<noteq> ''2024-03-12''"
    by (simp_all add: chicken_def toast_def apple_def)
  then have "\<forall>e \<in> set [chicken, toast, apple]. date e \<noteq> ''2024-03-12''"
    by simp
  with summarize_sums [of "[chicken, toast, apple]" "''2024-03-12''"]
  have none: "summarize [chicken, toast, apple] ''2024-03-12''
      = \<lparr>calories = Fin False 0, protein = Fin False 0, carbs = Fin False 0, fat = Fin False 0\<rparr>"
    by blast
  have kept: "filter (\<lambda>e. date e = ''2024-03-10'') [chicken, toast, apple] = [chicken, apple]"
    by (simp add: chicken_def toast_def apple_def)
  have fields: "map calories [chicken, apple] = [Lit 165, Lit 95]"
    "map protein [chicken, apple] = [Lit 31, Lit 1]"
    "map carbs [chicken, apple] = [Lit 0, Lit 25]"
    "map fat [chicken, apple] = [Lit 4, Lit 0]"
    by (simp_all add: chicken_def apple_def)
  from summarize_sums [of "[chicken, toast, apple]" "''2024-03-10''"]
  have "summarize [chicken, toast, apple] ''2024-03-10'' =
     \<lparr>calories = js_sum [Lit 165, Lit 95], protein = js_sum [Lit 31, Lit 1],
      carbs = js_sum [Lit 0, Lit 25], fat = js_sum [Lit 4, Lit 0]\<rparr>"
    by (simp only: kept fields)
  with none dates show ?thesis
    by blast
qed

lemma isCount_of_nat: "isCount x \<Longrightarrow> \<exists>n. x = Fin False (of_nat n)"
proof (cases x)
  case (Fin s a)
  assume "isCount x"
  with Fin have "\<not> s" and "0 \<le> a" and "of_int \<lfloor>a\<rfloor> = a"
    by simp_all
  then have "a = of_nat (nat \<lfloor>a\<rfloor>)"
    by (metis of_int_of_nat_eq of_nat_nat zero_le_floor)
  with Fin \<open>\<not> s\<close> show ?thesis
    by auto
qed simp_all

text \<open>Whole numbers add without rounding as long as the sum stays within \<open>2 ^ 53\<close>.\<close>

lemma plus_counts:
  assumes "isCount x" and "isCount y" and "magnitude x + magnitude y \<le> 2 ^ 53"
  shows "x + y = Fin False (magnitude x + magnitude y)" and "isCount (x + y)"
proof -
  obtain m n where x: "x = Fin False (of_nat m)" and y: "y = Fin False (of_nat n)"
    using assms(1,2) by (blast dest: isCount_of_nat)
  have "(of_nat (m + n) :: rat) \<le> 2 ^ 53"
    using assms(3) by (simp add: x y)
  then have le: "m + n \<le> 2 ^ 53"
    by (metis of_nat_le_iff of_nat_numeral of_nat_power)
  have v: "val False (of_nat m) + val False (of_nat n) = (of_nat (m + n) :: rat)"
    by (simp add: val_def)
  have "x + y = (let v = (of_nat (m + n) :: rat)
                 in if v = 0 then Fin (False \<and> False) 0 else fround (v < 0) \<bar>v\<bar>)"
    unfolding x y by (simp only: plus_jsnum.simps v)
  then have "x + y = (if m + n = 0 then Fin False 0 else fround False (of_nat (m + n)))"
    by (simp add: Let_def del: of_nat_add)
  then have sum: "x + y = Fin False (of_nat (m + n))"
    using fround_of_nat [OF le, of False] by (cases "m + n = 0") simp_all
  then show "x + y = Fin False (magnitude x + magnitude y)"
    by (simp add: x y)
  from sum show "isCount (x + y)"
    by simp
qed

lemma magnitude_nonneg: "isCount x \<Longrightarrow> 0 \<le> magnitude x"
  by (cases x) simp_all

lemma sum_magnitude_nonneg: "list_all isCount xs \<Longrightarrow> 0 \<le> sum_list (map magnitude xs)"
  by (induction xs) (simp_all add: magnitude_nonneg)

lemma foldl_plus_counts:
  assumes "list_all isCount xs" and "isCount acc"
    and "magnitude acc + sum_list (map magnitude xs) \<le> 2 ^ 53"
  shows "foldl (+) acc xs = Fin False (magnitude acc + sum_list (map magnitude xs))"
  using assms
proof (induction xs arbitrary: acc)
  case Nil
  then show ?case
    by (cases acc) simp_all
next
  case (Cons x xs)
  from Cons.prems have x: "isCount x" and xs: "list_all isCount xs"
    by simp_all
  have "0 \<le> sum_list (map magnitude xs)"
    using xs by (rule sum_magnitude_nonneg)
  with Cons.prems(3) have le: "magnitude acc + magnitude x \<le> 2 ^ 53"
    by simp
  note step = plus_counts [OF Cons.prems(2) x le]
  have "foldl (+) (acc + x) xs = Fin False (magnitude (acc + x) + sum_list (map magnitude xs))"
    using Cons.prems(3) by (intro Cons.IH xs step(2)) (simp add: step(1))
  then show ?case
    by (simp add: step(1) add.assoc)
qed

lemma js_sum_counts:
  assumes "countsUpTo xs"
  shows "js_sum xs = Fin False (sum_list (map magnitude xs))"
  using assms foldl_plus_counts [of xs "Fin False 0"]
  by (simp add: js_sum_def Lit_values countsUpTo_def)

lemma countsUpTo_filter:
  assumes "countsUpTo (map f es)"
  shows "countsUpTo (map f (filter P es))"
proof -
  have all: "list_all isCount (map f es)"
    using assms by (simp add: countsUpTo_def)
  have "sum_list (map magnitude (map f (filter P es))) \<le> sum_list (map magnitude (map f es))"
    using all by (induction es) (auto simp: magnitude_nonneg intro: add_increasing)
  moreover have "list_all isCount (map f (filter P es))"
    using all by (induction es) simp_all
  ultimately show ?thesis
    using assms by (simp add: countsUpTo_def)
qed

lemma countsUpTo_mset:
  assumes "mset es' = mset es" and "countsUpTo (map f es)"
  shows "countsUpTo (map f es')"
proof -
  have "set es' = set es"
    using assms(1) by (rule mset_eq_setD)
  moreover have "mset (map magnitude (map f es')) = mset (map magnitude (map f es))"
    using assms(1) by (metis mset_map)
  then have "sum_list (map magnitude (map f es')) = sum_list (map magnitude (map f es))"
    by (metis sum_mset_sum_list)
  ultimately show ?thesis
    using assms(2) by (simp add: countsUpTo_def list_all_iff)
qed

lemma js_sum_mset:
  assumes "mset es' = mset es" and "countsUpTo (map f es)"
  shows "js_sum (map f (filter P es')) = js_sum (map f (filter P es))"
proof -
  have "mset (filter P es') = mset (filter P es)"
    using assms(1) by (metis mset_filter)
  then have "mset (map magnitude (map f (filter P es')))
      = mset (map magnitude (map f (filter P es)))"
    by (metis mset_map)
  then have "sum_list (map magnitude (map f (filter P es')))
      = sum_list (map magnitude (map f (filter P es)))"
    by (metis sum_mset_sum_list)
  moreover have "countsUpTo (map f (filter P es'))"
    by (intro countsUpTo_filter countsUpTo_mset [OF assms])
  moreover have "countsUpTo (map f (filter P es))"
    by (intro countsUpTo_filter assms(2))
  ultimately show ?thesis
    by (simp add: js_sum_counts)
qed

text \<open>
  C10, as the code has it: when the four nutrient fields of all entries are non-negative
  whole numbers and the total of each field over the collection is at most \<open>2 ^ 53\<close>,
  \<^verbatim>\<open>summarize\<close> returns the same summary on every permutation of the collection.
\<close>

theorem summarize_permuted_counts:
  assumes "mset es' = mset es"
    and "countsUpTo (map calories es)" and "countsUpTo (map protein es)"
    and "countsUpTo (map carbs es)" and "countsUpTo (map fat es)"
  shows "summarize es' d = summarize es d"
  by (simp add: summarize_js_sum js_sum_mset [OF assms(1)] assms)

lemma sample_counts:
  "countsUpTo (map calories [chicken, toast, apple])"
  "countsUpTo (map protein [chicken, toast, apple])"
  "countsUpTo (map carbs [chicken, toast, apple])"
  "countsUpTo (map fat [chicken, toast, apple])"
  by code_simp+

theorem summarize_permuted_counts_witness:
  "mset [apple, chicken, toast] = mset [chicken, toast, apple]
   \<and> countsUpTo (map calories [chicken, toast, apple])
   \<and> countsUpTo (map protein [chicken, toast, apple])
   \<and> countsUpTo (map carbs [chicken, toast, apple])
   \<and> countsUpTo (map fat [chicken, toast, apple])
   \<and> summarize [apple, chicken, toast] ''2024-03-10''
       = summarize [chicken, toast, apple] ''2024-03-10''"
proof -
  have perm: "mset [apple, chicken, toast] = mset [chicken, toast, apple]"
    by simp
  from summarize_permuted_counts [OF perm sample_counts] perm sample_counts
  show ?thesis
    by simp
qed

text \<open>
  With fractional values the additions round, and the order matters: three entries of
  0.1, 0.2 and 0.3 calories sum to 0.6000000000000001 in this order and to 0.6 in the
  reverse order.
\<close>

theorem summarize_order_counterexample:
  "calories (summarize [snack ''1'' (Lit 0.1), snack ''2'' (Lit 0.2), snack ''3'' (Lit 0.3)]
      ''2024-03-10'') = Fin False (5404319552844596 / 9007199254740992)
   \<and> calories (summarize (rev [snack ''1'' (Lit 0.1), snack ''2'' (Lit 0.2), snack ''3'' (Lit 0.3)])
      ''2024-03-10'') = Fin False (5404319552844595 / 9007199254740992)
   \<and> summarize (rev [snack ''1'' (Lit 0.1), snack ''2'' (Lit 0.2), snack ''3'' (Lit 0.3)])
      ''2024-03-10''
     \<noteq> summarize [snack ''1'' (Lit 0.1), snack ''2'' (Lit 0.2), snack ''3'' (Lit 0.3)]
      ''2024-03-10''"
  by code_simp

section \<open>Advice\<close>

lemma msgs_distinct: "distinct [msgOver, msgUnder, msgProtein, msgFat, msgOnTrack]"
  by (simp add: msgOver_def msgUnder_def msgProtein_def msgFat_def msgOnTrack_def)

lemma generateAdvice_fired:
  "generateAdvice s g =
     (let fired = (if ruleOver s g then [msgOver] else if ruleUnder s g then [msgUnder] else [])
                  @ (if ruleProtein s g then [msgProtein] else [])
                  @ (if ruleFat s g then [msgFat] else [])
      in if fired = [] then [msgOnTrack] else fired)"
  by (simp add: generateAdvice_def ruleOver_def ruleUnder_def ruleProtein_def ruleFat_def
      remainingCalories_def Let_def times_jsnum_commute [of "Lit q" for q])

text \<open>
  C5: the advice follows the four rules in their listed order. The over-calorie warning
  appears exactly when rule 1 holds, the significantly-under warning exactly when rule 1
  fails and rule 2 holds, so that the two never appear together; the protein and the fat
  suggestions appear exactly when their own conditions hold; and the advice is the single
  affirmation exactly when no rule fires.
\<close>

theorem generateAdvice_rules:
  "(msgOver \<in> set (generateAdvice s g) \<longleftrightarrow> ruleOver s g)
   \<and> (msgUnder \<in> set (generateAdvice s g) \<longleftrightarrow> \<not> ruleOver s g \<and> ruleUnder s g)
   \<and> (msgProtein \<in> set (generateAdvice s g) \<longleftrightarrow> ruleProtein s g)
   \<and> (msgFat \<in> set (generateAdvice s g) \<longleftrightarrow> ruleFat s g)
   \<and> \<not> (msgOver \<in> set (generateAdvice s g) \<and> msgUnder \<in> set (generateAdvice s g))
   \<and> (generateAdvice s g = [msgOnTrack]
        \<longleftrightarrow> \<not> ruleOver s g \<and> \<not> ruleUnder s g \<and> \<not> ruleProtein s g \<and> \<not> ruleFat s g)
   \<and> (generateAdvice s g = [msgOnTrack]
        \<or> subseq (generateAdvice s g) [msgOver, msgUnder, msgProtein, msgFat])"
  using msgs_distinct by (auto simp: generateAdvice_fired Let_def)

lemma sample_rules:
  "\<not> ruleOver zeroSummary (calculateNutritionGoals defaultUser)"
  "ruleUnder zeroSummary (calculateNutritionGoals defaultUser)"
  "\<not> ruleProtein zeroSummary (calculateNutritionGoals defaultUser)"
  "\<not> ruleFat zeroSummary (calculateNutritionGoals defaultUser)"
  by code_simp+

theorem generateAdvice_rules_witness:
  "msgUnder \<in> set (generateAdvice zeroSummary (calculateNutritionGoals defaultUser))
   \<and> msgOver \<notin> set (generateAdvice zeroSummary (calculateNutritionGoals defaultUser))
   \<and> msgProtein \<notin> set (generateAdvice zeroSummary (calculateNutritionGoals defaultUser))
   \<and> msgFat \<notin> set (generateAdvice zeroSummary (calculateNutritionGoals defaultUser))
   \<and> generateAdvice zeroSummary (calculateNutritionGoals defaultUser) \<noteq> [msgOnTrack]"
  using generateAdvice_rules [of zeroSummary "calculateNutritionGoals defaultUser"] sample_rules
  by blast

section \<open>Progress figures\<close>

lemma fround_not_NaN: "fround s m \<noteq> NaN"
  by (simp add: fround_def Let_def)

lemma times_Fin_NaN_iff: "b \<noteq> 0 \<Longrightarrow> x * Fin t b = NaN \<longleftrightarrow> x = NaN"
  by (cases x) (simp_all add: fround_not_NaN)

lemma divide_Fin_NaN_iff: "b \<noteq> 0 \<Longrightarrow> x / Fin t b = NaN \<longleftrightarrow> x = NaN"
  by (cases x) (simp_all add: fround_not_NaN)

lemma Math_round_NaN_iff: "Math_round x = NaN \<longleftrightarrow> x = NaN"
  by (cases x) simp_all

lemma share_NaN_iff:
  "k \<noteq> 0 \<Longrightarrow> Math_round (x * Fin False k / Lit 1 * Lit 100) = NaN \<longleftrightarrow> x = NaN"
  by (simp add: Lit_values Math_round_NaN_iff times_Fin_NaN_iff divide_Fin_NaN_iff)

text \<open>
  C3, as the code has it: when the calorie goal is zero, the three macro shares of the
  calorie goal are computed with 1 in place of the zero denominator, that is
  \<open>round(protein * 4 / 1 * 100)\<close>, \<open>round(carbs * 4 / 1 * 100)\<close> and
  \<open>round(fat * 9 / 1 * 100)\<close>; such a share is \<open>NaN\<close> only if the summed nutrient is.
\<close>

theorem shares_zero_goal:
  assumes "calories g = Fin b 0"
  shows "proteinShare s g = Math_round (protein s * Lit 4 / Lit 1 * Lit 100)
    \<and> carbsShare s g = Math_round (carbs s * Lit 4 / Lit 1 * Lit 100)
    \<and> fatShare s g = Math_round (fat s * Lit 9 / Lit 1 * Lit 100)
    \<and> (proteinShare s g = NaN \<longleftrightarrow> protein s = NaN)
    \<and> (carbsShare s g = NaN \<longleftrightarrow> carbs s = NaN)
    \<and> (fatShare s g = NaN \<longleftrightarrow> fat s = NaN)"
proof -
  have or: "js_or (calories g) (Lit 1) = Lit 1"
    by (simp add: js_or_def assms)
  have "proteinShare s g = Math_round (protein s * Lit 4 / Lit 1 * Lit 100)"
    and "carbsShare s g = Math_round (carbs s * Lit 4 / Lit 1 * Lit 100)"
    and "fatShare s g = Math_round (fat s * Lit 9 / Lit 1 * Lit 100)"
    by (simp_all only: proteinShare_def carbsShare_def fatShare_def or)
  moreover have "Math_round (x * Lit 4 / Lit 1 * Lit 100) = NaN \<longleftrightarrow> x = NaN"
    and "Math_round (x * Lit 9 / Lit 1 * Lit 100) = NaN \<longleftrightarrow> x = NaN" for x
    using share_NaN_iff [of 4 x] share_NaN_iff [of 9 x] by (simp_all add: Lit_values)
  ultimately show ?thesis
    by simp
qed

theorem shares_zero_goal_witness:
  "calories zeroGoals = Fin False 0
   \<and> proteinShare zeroSummary zeroGoals = Math_round (Lit 0 * Lit 4 / Lit 1 * Lit 100)
   \<and> proteinShare zeroSummary zeroGoals \<noteq> NaN"
proof -
  have zero: "calories zeroGoals = Fin False 0"
    by (simp add: zeroGoals_def Lit_values)
  have none: "protein zeroSummary = Lit 0"
    by (simp add: zeroSummary_def)
  from shares_zero_goal [OF zero, of zeroSummary]
  have "proteinShare zeroSummary zeroGoals = Math_round (protein zeroSummary * Lit 4 / Lit 1 * Lit 100)"
    and "proteinShare zeroSummary zeroGoals = NaN \<longleftrightarrow> protein zeroSummary = NaN"
    by blast+
  then have "proteinShare zeroSummary zeroGoals = Math_round (Lit 0 * Lit 4 / Lit 1 * Lit 100)"
    and "proteinShare zeroSummary zeroGoals \<noteq> NaN"
    unfolding none by (simp_all add: Lit_values)
  with zero show ?thesis
    by blast
qed

text \<open>
  With a calorie goal of zero and nothing eaten, the calorie progress percentage is
  \<open>NaN\<close>; and with 10 g of protein eaten the protein share is 4000, not 0.
\<close>

theorem shares_counterexample:
  "caloriePercentage \<lparr>calories = Lit 0, protein = Lit 0, carbs = Lit 0, fat = Lit 0\<rparr>
       \<lparr>calories = Lit 0, protein = Lit 112, carbs = Lit 310, fat = Lit 63\<rparr> = NaN
   \<and> proteinShare \<lparr>calories = Lit 40, protein = Lit 10, carbs = Lit 0, fat = Lit 0\<rparr>
       \<lparr>calories = Lit 0, protein = Lit 112, carbs = Lit 310, fat = Lit 63\<rparr> = Fin False 4000"
  by code_simp

section \<open>Adding an entry\<close>







section \<open>The calendar\<close>

lemma div_bounds:
  fixes x c :: int
  assumes "0 < c"
  shows "c * (x div c) \<le> x" and "x < c * (x div c) + c"
proof -
  have "x = c * (x div c) + x mod c"
    by simp
  moreover have "0 \<le> x mod c" and "x mod c < c"
    using assms by simp_all
  ultimately show "c * (x div c) \<le> x" and "x < c * (x div c) + c"
    by linarith+
qed

lemma DayFromYear_estimate:
  "146097 * (y - 1970) - 800 \<le> 400 * DayFromYear y"
  "400 * DayFromYear y \<le> 146097 * (y - 1970) + 800"
proof -
  define a b c where "a = (y - 1969) div 4" and "b = (y - 1901) div 100"
    and "c = (y - 1601) div 400"
  have "4 * a \<le> y - 1969" "y - 1969 < 4 * a + 4" "100 * b \<le> y - 1901"
    "y - 1901 < 100 * b + 100" "400 * c \<le> y - 1601" "y - 1601 < 400 * c + 400"
    unfolding a_def b_def c_def by (simp_all only: div_bounds [OF zero_less_numeral])
  moreover have "400 * DayFromYear y = 146000 * y - 287620000 + 400 * a - 400 * b + 400 * c"
    by (simp add: DayFromYear_def a_def b_def c_def algebra_simps)
  moreover have "146097 * (y - 1970) = 146097 * y - 287811090"
    by simp
  ultimately show "146097 * (y - 1970) - 800 \<le> 400 * DayFromYear y"
    and "400 * DayFromYear y \<le> 146097 * (y - 1970) + 800"
    by linarith+
qed

lemma YearFromTime_bounds:
  "DayFromYear (YearFromTime t) \<le> Day t" "Day t < DayFromYear (YearFromTime t + 1)"
proof -
  define d where "d = Day t"
  define k where "k = (400 * d) div 146097"
  have k: "146097 * k \<le> 400 * d" "400 * d < 146097 * k + 146097"
    unfolding k_def by (simp_all only: div_bounds [OF zero_less_numeral])
  have e1: "146097 * k + 292194 - 800 \<le> 400 * DayFromYear (1970 + k + 2)"
    using DayFromYear_estimate(1) [of "1970 + k + 2"] by simp
  have e2: "400 * DayFromYear (1970 + k - 1) \<le> 146097 * k - 146097 + 800"
    using DayFromYear_estimate(2) [of "1970 + k - 1"] by simp
  have up: "d < DayFromYear (1970 + k + 2)"
    using k e1 by linarith
  have down: "DayFromYear (1970 + k - 1) \<le> d"
    using k e2 by linarith
  have y: "YearFromTime t =
      (if DayFromYear (1970 + k + 1) \<le> d then 1970 + k + 1
       else if DayFromYear (1970 + k) \<le> d then 1970 + k else 1970 + k - 1)"
    by (simp add: YearFromTime_def Let_def d_def k_def add.assoc)
  have [simp]: "1970 + k + 1 + 1 = 1970 + k + 2" "1970 + k - 1 + 1 = 1970 + k"
    by simp_all
  show "DayFromYear (YearFromTime t) \<le> Day t"
    using down unfolding y d_def [symmetric] by (simp split: if_splits)
  show "Day t < DayFromYear (YearFromTime t + 1)"
    using up unfolding y d_def [symmetric] by (simp split: if_splits)
qed

lemma div_add1:
  fixes x c :: int
  assumes "0 < c"
  shows "(x + 1) div c = x div c + (if x mod c = c - 1 then 1 else 0)"
proof (cases "x mod c = c - 1")
  case True
  have "c * (x div c) + x mod c = x"
    by simp
  with True have "x + 1 = c * (x div c) + c"
    by linarith
  also have "\<dots> = c * (x div c + 1) + 0"
    by (simp add: algebra_simps)
  finally have "(x + 1) div c = x div c + 1"
    using assms by (intro int_div_pos_eq) simp_all
  with True show ?thesis
    by simp
next
  case False
  have "0 \<le> x mod c" and "x mod c < c"
    using assms by simp_all
  with False have "0 \<le> x mod c + 1" and "x mod c + 1 < c"
    by simp_all
  moreover have "x + 1 = c * (x div c) + (x mod c + 1)"
    by simp
  ultimately have "(x + 1) div c = x div c"
    by (intro int_div_pos_eq)
  with False show ?thesis
    by simp
qed

lemma mod_shift:
  fixes y n c :: int
  assumes "n mod c = 1" and "1 < c"
  shows "(y - n) mod c = c - 1 \<longleftrightarrow> y mod c = 0"
proof -
  have r: "0 \<le> y mod c" "y mod c < c"
    using assms(2) by simp_all
  have eq: "(y - n) mod c = (y mod c - 1) mod c"
    using mod_diff_eq [of y c n] assms(1) by simp
  show ?thesis
  proof (cases "y mod c = 0")
    case True
    have "(- 1) mod c = c - 1"
      using assms(2) by (simp add: zmod_minus1)
    with True show ?thesis
      by (simp add: eq)
  next
    case False
    with r have "0 \<le> y mod c - 1" and "y mod c - 1 < c - 1"
      by simp_all
    then have "(y mod c - 1) mod c = y mod c - 1"
      by simp
    with False \<open>y mod c - 1 < c - 1\<close> show ?thesis
      by (simp add: eq)
  qed
qed

lemma DayFromYear_Suc: "DayFromYear (y + 1) = DayFromYear y + DaysInYear y"
proof -
  have a: "(y + 1 - 1969) div 4 = (y - 1969) div 4 + (if y mod 4 = 0 then 1 else 0)"
    using div_add1 [of 4 "y - 1969"] mod_shift [of 1969 4 y] by (simp add: algebra_simps)
  have b: "(y + 1 - 1901) div 100 = (y - 1901) div 100 + (if y mod 100 = 0 then 1 else 0)"
    using div_add1 [of 100 "y - 1901"] mod_shift [of 1901 100 y] by (simp add: algebra_simps)
  have c: "(y + 1 - 1601) div 400 = (y - 1601) div 400 + (if y mod 400 = 0 then 1 else 0)"
    using div_add1 [of 400 "y - 1601"] mod_shift [of 1601 400 y] by (simp add: algebra_simps)
  have "y mod 4 = 0" if "y mod 100 = 0"
    using that mod_mod_cancel [of 4 100 y] by simp
  moreover have "y mod 100 = 0" if "y mod 400 = 0"
    using that mod_mod_cancel [of 100 400 y] by simp
  ultimately show ?thesis
    unfolding DayFromYear_def DaysInYear_def a b c by auto
qed

lemma DaysInYear_cases: "DaysInYear y = 365 \<or> DaysInYear y = 366"
  by (simp add: DaysInYear_def)

lemma DayWithinYear_bounds:
  "0 \<le> DayWithinYear t" "DayWithinYear t < 365 + InLeapYear t"
proof -
  show "0 \<le> DayWithinYear t"
    using YearFromTime_bounds(1) [of t] by (simp add: DayWithinYear_def)
  have "Day t < DayFromYear (YearFromTime t) + DaysInYear (YearFromTime t)"
    using YearFromTime_bounds(2) [of t] by (simp add: DayFromYear_Suc)
  then show "DayWithinYear t < 365 + InLeapYear t"
    using DaysInYear_cases [of "YearFromTime t"]
    by (auto simp: DayWithinYear_def InLeapYear_def)
qed

lemma InLeapYear_cases: "InLeapYear t = 0 \<or> InLeapYear t = 1"
  by (simp add: InLeapYear_def)

lemma MonthFromTime_range: "0 \<le> MonthFromTime t" "MonthFromTime t \<le> 11"
  by (simp_all add: MonthFromTime_def Let_def)

lemma DateFromTime_range: "1 \<le> DateFromTime t" "DateFromTime t \<le> 31"
proof -
  define d l where "d = DayWithinYear t" and "l = InLeapYear t"
  have d: "0 \<le> d" "d < 365 + l" and l: "l = 0 \<or> l = 1"
    using DayWithinYear_bounds [of t] InLeapYear_cases [of t] by (simp_all add: d_def l_def)
  have eq: "DateFromTime t = d - monthStart (MonthFromTime t) l + 1"
    by (simp add: DateFromTime_def d_def l_def)
  have m: "MonthFromTime t =
     (if d < 31 then 0 else if d < 59 + l then 1 else if d < 90 + l then 2
      else if d < 120 + l then 3 else if d < 151 + l then 4 else if d < 181 + l then 5
      else if d < 212 + l then 6 else if d < 243 + l then 7 else if d < 273 + l then 8
      else if d < 304 + l then 9 else if d < 334 + l then 10 else 11)"
    by (simp add: MonthFromTime_def Let_def d_def l_def)
  show "1 \<le> DateFromTime t"
    unfolding eq m monthStart_def using d l by (simp split: if_splits)
  show "DateFromTime t \<le> 31"
    unfolding eq m monthStart_def using d l by (auto split: if_splits)
qed

text \<open>The day number is recovered from the year, the month and the date of a time value.\<close>

lemma MakeDay_FromTime:
  "MakeDay (YearFromTime t) (MonthFromTime t) (DateFromTime t + k) = Day t + k"
proof -
  have "MonthFromTime t div 12 = 0" and "MonthFromTime t mod 12 = MonthFromTime t"
    using MonthFromTime_range [of t] by simp_all
  then show ?thesis
    by (simp add: MakeDay_def DateFromTime_def DayWithinYear_def InLeapYear_def)
qed

lemma YearFromTime_range:
  assumes "- 100000000 \<le> Day t" and "Day t \<le> 100000000"
  shows "- 271821 \<le> YearFromTime t" and "YearFromTime t \<le> 275760"
proof -
  define y where "y = YearFromTime t"
  have lo: "146097 * y - 287811090 - 800 \<le> 400 * DayFromYear y"
    using DayFromYear_estimate(1) [of y] by simp
  have hi: "400 * DayFromYear (y + 1) \<le> 146097 * y - 287664993 + 800"
    using DayFromYear_estimate(2) [of "y + 1"] by simp
  have "DayFromYear y \<le> Day t" and "Day t < DayFromYear (y + 1)"
    using YearFromTime_bounds [of t] by (simp_all add: y_def)
  with assms lo hi have "146097 * y \<le> 40287811890" and "- 39712335807 < 146097 * y"
    by linarith+
  then show "- 271821 \<le> YearFromTime t" and "YearFromTime t \<le> 275760"
    unfolding y_def [symmetric] by linarith+
qed


lemma of_char_digit:
  assumes "0 \<le> n" and "n \<le> 9"
  shows "(of_char (digit n) :: int) = 48 + n"
proof -
  have "(48 + n) mod 256 = 48 + n"
    using assms by simp
  then show ?thesis
    by (simp add: digit_def)
qed

lemma digit_facts:
  assumes "0 \<le> n" and "n \<le> 9"
  shows "isDigit (digit n)" and "digitVal (digit n) = n"
  using assms by (simp_all add: isDigit_def digitVal_def of_char_digit)

lemma isDigit_not_mark: "isDigit c \<Longrightarrow> c \<noteq> CHR ''T''"
  by (auto simp: isDigit_def)

lemma number_snoc: "number (cs @ [c]) = 10 * number cs + digitVal c"
  by (simp add: number_def)

lemma pad_digits: "list_all isDigit (pad k n)"
proof (induction k arbitrary: n)
  case (Suc k)
  have "0 \<le> n mod 10" and "n mod 10 \<le> 9"
    by simp_all
  then show ?case
    by (simp add: Suc.IH digit_facts(1))
qed simp

lemma number_pad: "number (pad k n) = n mod 10 ^ k"
proof (induction k arbitrary: n)
  case 0
  show ?case
    by (simp add: number_def)
next
  case (Suc k)
  have "0 \<le> n mod 10" and "n mod 10 \<le> 9"
    by simp_all
  then have "number (pad (Suc k) n) = 10 * (n div 10 mod 10 ^ k) + n mod 10"
    by (simp add: number_snoc Suc.IH digit_facts(2))
  also have "\<dots> = n mod 10 ^ Suc k"
    using zmod_zmult2_eq [of "10 ^ k" n 10] by simp
  finally show ?case .
qed

lemma number_pad_id:
  assumes "0 \<le> n" and "n < 10 ^ k"
  shows "number (pad k n) = n"
  using assms by (simp add: number_pad)

lemma pad_2: "pad 2 n = [digit (n div 10 mod 10), digit (n mod 10)]"
  by (simp add: eval_nat_numeral)

lemma pad_4:
  "pad 4 n = [digit (n div 10 div 10 div 10 mod 10), digit (n div 10 div 10 mod 10),
     digit (n div 10 mod 10), digit (n mod 10)]"
  by (simp add: eval_nat_numeral)

lemma pad_6:
  "pad 6 n = [digit (n div 10 div 10 div 10 div 10 div 10 mod 10),
     digit (n div 10 div 10 div 10 div 10 mod 10), digit (n div 10 div 10 div 10 mod 10),
     digit (n div 10 div 10 mod 10), digit (n div 10 mod 10), digit (n mod 10)]"
  by (simp add: eval_nat_numeral)

lemma dateOfFields_pad:
  assumes "1 \<le> m" and "m \<le> 12" and "1 \<le> d" and "d \<le> 31"
  shows "dateOfFields y (pad 2 m) (pad 2 d) = TimeClip (MakeDate (MakeDay y (m - 1) d) 0)"
proof -
  have "number (pad 2 m) = m" and "number (pad 2 d) = d"
    using assms by (simp_all add: number_pad_id)
  with assms show ?thesis
    by (simp add: dateOfFields_def pad_digits)
qed

lemma Date_parse_4:
  assumes "list_all isDigit [y1, y2, y3, y4]"
  shows "Date_parse ([y1, y2, y3, y4] @ ''-'' @ [m1, m2] @ ''-'' @ [d1, d2])
      = dateOfFields (number [y1, y2, y3, y4]) [m1, m2] [d1, d2]"
  using assms by simp

lemma Date_parse_6:
  assumes "list_all isDigit [y1, y2, y3, y4, y5, y6]"
    and "sg = CHR ''+'' \<or> sg = CHR ''-'' \<and> number [y1, y2, y3, y4, y5, y6] \<noteq> 0"
  shows "Date_parse (sg # [y1, y2, y3, y4, y5, y6] @ ''-'' @ [m1, m2] @ ''-'' @ [d1, d2])
      = dateOfFields (if sg = CHR ''-'' then - number [y1, y2, y3, y4, y5, y6]
                      else number [y1, y2, y3, y4, y5, y6]) [m1, m2] [d1, d2]"
  using assms by (simp add: Let_def)

text \<open>Reading the date part of the ISO form gives back the fields it was printed from.\<close>

lemma Date_parse_iso:
  assumes "- 999999 \<le> y" and "y \<le> 999999"
    and "1 \<le> m" and "m \<le> 12" and "1 \<le> d" and "d \<le> 31"
  shows "Date_parse (isoYear y @ ''-'' @ pad 2 m @ ''-'' @ pad 2 d)
    = TimeClip (MakeDate (MakeDay y (m - 1) d) 0)"
proof -
  note fields = dateOfFields_pad [OF assms(3-6)]
  consider "0 \<le> y \<and> y \<le> 9999" | "y < 0" | "9999 < y"
    by linarith
  then show ?thesis
  proof cases
    case 1
    then have y: "number (pad 4 y) = y"
      by (simp add: number_pad_id)
    have "Date_parse (pad 4 y @ ''-'' @ pad 2 m @ ''-'' @ pad 2 d)
        = dateOfFields (number (pad 4 y)) (pad 2 m) (pad 2 d)"
      using pad_digits [of 4 y] unfolding pad_4 pad_2 by (rule Date_parse_4)
    moreover have "isoYear y = pad 4 y"
      using 1 by (simp add: isoYear_def)
    ultimately show ?thesis
      by (simp only: y fields)
  next
    case 2
    then have y: "number (pad 6 (- y)) = - y"
      using assms(1) by (simp add: number_pad_id)
    with 2 have "CHR ''-'' = CHR ''+'' \<or> CHR ''-'' = CHR ''-'' \<and> number (pad 6 (- y)) \<noteq> 0"
      by simp
    with pad_digits [of 6 "- y"]
    have "Date_parse (CHR ''-'' # pad 6 (- y) @ ''-'' @ pad 2 m @ ''-'' @ pad 2 d)
        = dateOfFields (if CHR ''-'' = CHR ''-'' then - number (pad 6 (- y))
                        else number (pad 6 (- y))) (pad 2 m) (pad 2 d)"
      unfolding pad_6 pad_2 by (rule Date_parse_6)
    moreover have "isoYear y = CHR ''-'' # pad 6 (- y)"
      using 2 by (simp add: isoYear_def)
    ultimately show ?thesis
      by (simp only: y fields append_Cons HOL.simp_thms if_True minus_minus)
  next
    case 3
    then have y: "number (pad 6 y) = y"
      using assms(2) by (simp add: number_pad_id)
    have "CHR ''+'' = CHR ''+'' \<or> CHR ''+'' = CHR ''-'' \<and> number (pad 6 y) \<noteq> 0"
      by simp
    with pad_digits [of 6 y]
    have "Date_parse (CHR ''+'' # pad 6 y @ ''-'' @ pad 2 m @ ''-'' @ pad 2 d)
        = dateOfFields (if CHR ''+'' = CHR ''-'' then - number (pad 6 y)
                        else number (pad 6 y)) (pad 2 m) (pad 2 d)"
      unfolding pad_6 pad_2 by (rule Date_parse_6)
    moreover have "isoYear y = CHR ''+'' # pad 6 y"
      using 3 by (simp add: isoYear_def)
    moreover have "CHR ''+'' \<noteq> CHR ''-''"
      by simp
    ultimately show ?thesis
      by (simp only: y fields append_Cons HOL.simp_thms if_False)
  qed
qed

lemma Day_shift: "Day (t + k * msPerDay) = Day t + k"
  by (simp add: Day_def msPerDay_def)

lemma isoDate_Day: "Day t = Day t' \<Longrightarrow> isoDate t = isoDate t'"
  by (simp add: isoDate_def YearFromTime_def MonthFromTime_def DateFromTime_def
      DayWithinYear_def InLeapYear_def)

lemma isoDate_no_mark: "CHR ''T'' \<notin> set (isoDate t)"
proof -
  have "CHR ''T'' \<notin> set (pad k n)" for k n
    using pad_digits [of k n] isDigit_not_mark by (auto simp: list_all_iff)
  then show ?thesis
    by (simp add: isoDate_def isoYear_def)
qed

lemma toISOString_date: "\<exists>rest. toISOString (Some t) = Inr (isoDate t @ CHR ''T'' # rest)"
  by (simp add: toISOString_def isoDate_def)

lemma split_T_0_date: "split_T_0 (isoDate t @ CHR ''T'' # rest) = isoDate t"
proof -
  have "\<forall>c \<in> set (isoDate t). c \<noteq> CHR ''T''"
    using isoDate_no_mark [of t] by blast
  then show ?thesis
    by (simp add: split_T_0_def)
qed

lemma TimeClip_Day:
  assumes "- 100000000 \<le> Day t" and "Day t \<le> 100000000"
  shows "TimeClip (Day t * msPerDay) = Some (Day t * msPerDay)"
  using assms by (simp add: TimeClip_def msPerDay_def abs_le_iff)

text \<open>Reading the ISO date of a time value gives the midnight (UTC) of its day.\<close>

lemma Date_parse_isoDate:
  assumes "- 100000000 \<le> Day t" and "Day t \<le> 100000000"
  shows "Date_parse (isoDate t) = Some (Day t * msPerDay)"
proof -
  have "- 999999 \<le> YearFromTime t" and "YearFromTime t \<le> 999999"
    using YearFromTime_range [OF assms] by simp_all
  moreover have "1 \<le> MonthFromTime t + 1" and "MonthFromTime t + 1 \<le> 12"
    using MonthFromTime_range [of t] by simp_all
  ultimately have "Date_parse (isoDate t)
      = TimeClip (MakeDate (MakeDay (YearFromTime t) (MonthFromTime t + 1 - 1) (DateFromTime t)) 0)"
    unfolding isoDate_def using DateFromTime_range [of t] by (rule Date_parse_iso)
  also have "\<dots> = TimeClip (Day t * msPerDay)"
    using MakeDay_FromTime [of t 0] by (simp add: MakeDate_def)
  finally show ?thesis
    by (simp only: TimeClip_Day [OF assms])
qed

text \<open>
  On a host whose offset from UTC never changes, \<^verbatim>\<open>setDate\<close> with the local date plus
  \<open>k\<close> moves the time value by \<open>k\<close> days.
\<close>

lemma setDate_fixed_offset:
  "setDate (Zone off []) (Some t) (map_option (\<lambda>d. d + k) (getDate (Zone off []) (Some t)))
     = TimeClip (t + k * msPerDay)"
proof -
  define l where "l = t + off"
  have "MakeDate (MakeDay (YearFromTime l) (MonthFromTime l) (DateFromTime l + k)) (TimeWithinDay l)
      = (Day l + k) * msPerDay + l mod msPerDay"
    by (simp add: MakeDate_def MakeDay_FromTime TimeWithinDay_def)
  also have "\<dots> = l + k * msPerDay"
    by (simp add: Day_def algebra_simps)
  finally show ?thesis
    by (simp add: setDate_def getDate_def LocalTime_def UTC_def l_def)
qed

text \<open>
  On such a host \<^verbatim>\<open>changeDate\<close> is correct by the calendar: from the ISO date of any time
  value it leads to the ISO date of the time value \<open>k\<close> days later, as long as both days
  are within the range of \<^verbatim>\<open>Date\<close>, 100 000 000 days either side of the epoch.
\<close>

lemma changeDate_fixed_offset:
  assumes "- 100000000 \<le> Day t" and "Day t \<le> 100000000"
    and "- 100000000 \<le> Day t + k" and "Day t + k \<le> 100000000"
  shows "changeDate (Zone off []) k (isoDate t) = Inr (isoDate (t + k * msPerDay))"
proof -
  define t0 where "t0 = Day t * msPerDay"
  have "Day (t0 + k * msPerDay) = Day (t + k * msPerDay)"
    by (simp add: Day_shift) (simp add: t0_def Day_def msPerDay_def)
  then have same: "isoDate (t0 + k * msPerDay) = isoDate (t + k * msPerDay)"
    by (rule isoDate_Day)
  have "t0 + k * msPerDay = (Day t + k) * msPerDay"
    by (simp add: t0_def algebra_simps)
  then have clip: "TimeClip (t0 + k * msPerDay) = Some (t0 + k * msPerDay)"
    using assms(3,4) by (simp add: TimeClip_def msPerDay_def abs_le_iff)
  obtain rest where iso: "toISOString (Some (t0 + k * msPerDay))
      = Inr (isoDate (t0 + k * msPerDay) @ CHR ''T'' # rest)"
    using toISOString_date by blast
  show ?thesis
    unfolding changeDate_def Let_def Date_parse_isoDate [OF assms(1,2)] t0_def [symmetric]
      setDate_fixed_offset clip iso
    by (simp add: split_T_0_date same)
qed

lemma changeDate_fixed_offset_round_trip:
  assumes "- 100000000 \<le> Day t" and "Day t < 100000000"
  shows "changeDate (Zone off []) 1 (isoDate t) = Inr (isoDate (t + msPerDay))"
    and "changeDate (Zone off []) (- 1) (isoDate (t + msPerDay)) = Inr (isoDate t)"
proof -
  show "changeDate (Zone off []) 1 (isoDate t) = Inr (isoDate (t + msPerDay))"
    using assms changeDate_fixed_offset [of t 1 off] by simp
  have "Day (t + msPerDay) = Day t + 1"
    using Day_shift [of t 1] by simp
  then show "changeDate (Zone off []) (- 1) (isoDate (t + msPerDay)) = Inr (isoDate t)"
    using assms changeDate_fixed_offset [of "t + msPerDay" "- 1" off] by simp
qed

text \<open>Some time values and their ISO forms, and the local date in New York.\<close>

lemma toISOString_samples:
  "toISOString (Some 0) = Inr ''1970-01-01T00:00:00.000Z''"
  "toISOString (Some (- 1)) = Inr ''1969-12-31T23:59:59.999Z''"
  "toISOString (Some 951782400000) = Inr ''2000-02-29T00:00:00.000Z''"
  "toISOString (Some 1710054001234) = Inr ''2024-03-10T07:00:01.234Z''"
  "toISOString (Some 8640000000000000) = Inr ''+275760-09-13T00:00:00.000Z''"
  "toISOString (Some (- 8640000000000000)) = Inr ''-271821-04-20T00:00:00.000Z''"
  "toISOString None = Inl RangeError"
  by code_simp+

lemma Date_samples:
  "Date_parse ''2024-03-10'' = Some 1710028800000"
  "Date_parse ''+275760-09-13'' = Some 8640000000000000"
  "Date_parse ''+275760-09-14'' = None"
  "Date_parse ''2024-13-01'' = None"
  "Date_parse ''10/03/2024'' = None"
  "getDate tzNewYork (Some 1710028800000) = Some 9"
  "getDate tzUTC (Some 1710028800000) = Some 10"
  "setDate tzNewYork (Some 1710028800000) (Some 10) = Some 1710111600000"
  "setDate tzUTC (Some 1710028800000) (Some 11) = Some 1710115200000"
  by code_simp+

section \<open>Changing the date\<close>

text \<open>
  C6 fails on a host whose time zone changes its offset. In New York, one day forward
  from 10 March 2024, the day the clocks go forward, is 10 March 2024 again: local
  19:00 of 9 March becomes local 19:00 of 10 March, which is 23:00 UTC of the same day.
  One day back from there is 9 March, so the round trip does not return to the start.
  On a host on UTC the same steps give 11 March and then 10 March.
\<close>

theorem changeDate_NewYork_round_trip:
  "changeDate tzNewYork 1 ''2024-03-10'' = Inr ''2024-03-10''
   \<and> changeDate tzNewYork (- 1) ''2024-03-10'' = Inr ''2024-03-09''
   \<and> changeDate tzUTC 1 ''2024-03-10'' = Inr ''2024-03-11''
   \<and> changeDate tzUTC (- 1) ''2024-03-11'' = Inr ''2024-03-10''"
  by code_simp

end
